theory Spec2Isabelle
  imports Main "HOL-Library.Char_ord" "HOL-Library.List_Lexorder" "HOL-Library.Product_Lexorder"
begin

section \<open>Python strings\<close>

text \<open>
  A Python \<^verbatim>\<open>str\<close> is modelled as a \<^typ>\<open>string\<close> whose characters are the code points
  below 256. On that range the character classes of \<^verbatim>\<open>re\<close> and the methods of \<^verbatim>\<open>str\<close>
  are as defined here: \<^verbatim>\<open>\d\<close> is \<^verbatim>\<open>0-9\<close>, \<^verbatim>\<open>\s\<close> and \<^verbatim>\<open>str.strip()\<close> share one
  whitespace set, \<^verbatim>\<open>\w\<close> is alphanumeric-or-underscore and \<^verbatim>\<open>.\<close> is everything but
  the newline. Python integers are \<^typ>\<open>int\<close>; the interpreter's configurable limit on
  the number of digits \<^verbatim>\<open>int()\<close> and \<^verbatim>\<open>str()\<close> convert is not modelled.
\<close>

definition NL :: char where
  "NL = CHR 0x0A"

definition is_digit :: "char \<Rightarrow> bool" where
  "is_digit c \<longleftrightarrow> CHR ''0'' \<le> c \<and> c \<le> CHR ''9''"

definition is_space :: "char \<Rightarrow> bool" where
  "is_space c \<longleftrightarrow>
     (CHR 0x09 \<le> c \<and> c \<le> CHR 0x0D) \<or> (CHR 0x1C \<le> c \<and> c \<le> CHR 0x20) \<or>
     c = CHR 0x85 \<or> c = CHR 0xA0"

definition is_upper :: "char \<Rightarrow> bool" where
  "is_upper c \<longleftrightarrow>
     (CHR ''A'' \<le> c \<and> c \<le> CHR ''Z'') \<or> (CHR 0xC0 \<le> c \<and> c \<le> CHR 0xD6) \<or>
     (CHR 0xD8 \<le> c \<and> c \<le> CHR 0xDE)"

definition is_word :: "char \<Rightarrow> bool" where
  "is_word c \<longleftrightarrow>
     is_digit c \<or> (CHR ''A'' \<le> c \<and> c \<le> CHR ''Z'') \<or> c = CHR ''_'' \<or>
     (CHR ''a'' \<le> c \<and> c \<le> CHR ''z'') \<or> c = CHR 0xAA \<or> c = CHR 0xB2 \<or> c = CHR 0xB3 \<or>
     c = CHR 0xB5 \<or> c = CHR 0xB9 \<or> c = CHR 0xBA \<or> (CHR 0xBC \<le> c \<and> c \<le> CHR 0xBE) \<or>
     (CHR 0xC0 \<le> c \<and> c \<le> CHR 0xD6) \<or> (CHR 0xD8 \<le> c \<and> c \<le> CHR 0xF6) \<or> CHR 0xF8 \<le> c"

text \<open>\<^verbatim>\<open>str.lower()\<close>, one character at a time: every upper-case letter below 256 has its
  lower-case form 32 code points higher.\<close>

definition to_lower :: "char \<Rightarrow> char" where
  "to_lower c = (if is_upper c then char_of (of_char c + (32::nat)) else c)"

definition py_lower :: "string \<Rightarrow> string" where
  "py_lower s = map to_lower s"

definition lstrip :: "string \<Rightarrow> string" where
  "lstrip s = dropWhile is_space s"

definition rstrip :: "string \<Rightarrow> string" where
  "rstrip s = rev (dropWhile is_space (rev s))"

definition py_strip :: "string \<Rightarrow> string" where
  "py_strip s = rstrip (lstrip s)"

text \<open>\<^verbatim>\<open>s.split(sep)\<close> for a one-character separator: never the empty list.\<close>

fun py_split :: "char \<Rightarrow> string \<Rightarrow> string list" where
  "py_split sep [] = [[]]"
| "py_split sep (c # cs) =
     (if c = sep then [] # py_split sep cs
      else (case py_split sep cs of w # ws \<Rightarrow> (c # w) # ws | [] \<Rightarrow> [[c]]))"

fun py_join :: "string \<Rightarrow> string list \<Rightarrow> string" where
  "py_join sep [] = []"
| "py_join sep [x] = x"
| "py_join sep (x # y # ys) = x @ sep @ py_join sep (y # ys)"

text \<open>\<^verbatim>\<open>enumerate(xs, start=n)\<close>.\<close>

fun enumerate_from :: "int \<Rightarrow> 'a list \<Rightarrow> (int \<times> 'a) list" where
  "enumerate_from n [] = []"
| "enumerate_from n (x # xs) = (n, x) # enumerate_from (n + 1) xs"

subsection \<open>Integers and their decimal text\<close>

definition digit_char :: "nat \<Rightarrow> char" where
  "digit_char n = ''0123456789'' ! n"

definition digit_val :: "char \<Rightarrow> nat" where
  "digit_val c = of_char c - 48"

fun str_nat :: "nat \<Rightarrow> string" where
  "str_nat n = (if n < 10 then [digit_char n] else str_nat (n div 10) @ [digit_char (n mod 10)])"

declare str_nat.simps [simp del]

text \<open>\<^verbatim>\<open>str(i)\<close>, also what an f-string writes for an integer.\<close>

definition str_int :: "int \<Rightarrow> string" where
  "str_int i = (if i < 0 then CHR ''-'' # str_nat (nat (- i)) else str_nat (nat i))"

text \<open>The value of a run of decimal digits, most significant first.\<close>

definition digits_val :: "string \<Rightarrow> nat" where
  "digits_val s = foldl (\<lambda>a c. 10 * a + digit_val c) 0 s"

text \<open>
  \<^verbatim>\<open>int(s)\<close> in base 10: surrounding whitespace is dropped (the set \<^verbatim>\<open>int\<close> uses lacks the
  four separators \<^verbatim>\<open>0x1C..0x1F\<close> that \<^verbatim>\<open>strip\<close> removes), then an optional sign, then decimal
  digits in which single underscores may stand between digits. \<open>None\<close> is \<^verbatim>\<open>ValueError\<close>.
\<close>

definition is_int_space :: "char \<Rightarrow> bool" where
  "is_int_space c \<longleftrightarrow> is_space c \<and> \<not> (CHR 0x1C \<le> c \<and> c \<le> CHR 0x1F)"

fun digit_groups :: "string \<Rightarrow> bool" where
  "digit_groups [] = False"
| "digit_groups [c] = is_digit c"
| "digit_groups (c # d # cs) =
     (is_digit c \<and> (if d = CHR ''_'' then digit_groups cs else digit_groups (d # cs)))"

definition unsigned_int :: "string \<Rightarrow> int option" where
  "unsigned_int s =
     (if digit_groups s then Some (int (digits_val (filter is_digit s))) else None)"

definition py_int :: "string \<Rightarrow> int option" where
  "py_int s =
     (case rev (dropWhile is_int_space (rev (dropWhile is_int_space s))) of
        [] \<Rightarrow> None
      | c # cs \<Rightarrow>
          if c = CHR ''-'' then map_option uminus (unsigned_int cs)
          else if c = CHR ''+'' then unsigned_int cs
          else unsigned_int (c # cs))"

section \<open>Version model (version_calc.py)\<close>

datatype BumpType = MAJOR | MINOR | PATCH | NONE

datatype error = ValueError string

record Version =
  major :: int
  minor :: int
  patch :: int
  prerelease :: "string option"
  build :: "string option"

text \<open>The dataclass constructor \<^verbatim>\<open>Version(major, minor, patch)\<close>: both optional fields
  default to \<^verbatim>\<open>None\<close>.\<close>

definition Version3 :: "int \<Rightarrow> int \<Rightarrow> int \<Rightarrow> Version" where
  "Version3 a b c = \<lparr>major = a, minor = b, patch = c, prerelease = None, build = None\<rparr>"

text \<open>Truthiness of an optional string: \<^verbatim>\<open>None\<close> and the empty string are false.\<close>

fun truthy :: "string option \<Rightarrow> bool" where
  "truthy None = False"
| "truthy (Some s) = (s \<noteq> [])"

text \<open>\<^verbatim>\<open>Version.__str__\<close>.\<close>

definition to_string :: "Version \<Rightarrow> string" where
  "to_string v =
     (let version = str_int (major v) @ ''.'' @ str_int (minor v) @ ''.'' @ str_int (patch v);
          version = (if truthy (prerelease v) then version @ ''-'' @ the (prerelease v) else version);
          version = (if truthy (build v) then version @ ''+'' @ the (build v) else version)
      in version)"

text \<open>The character class \<^verbatim>\<open>[0-9A-Za-z\-.]\<close> of the prerelease and build groups.\<close>

definition is_ident :: "char \<Rightarrow> bool" where
  "is_ident c \<longleftrightarrow>
     is_digit c \<or> (CHR ''A'' \<le> c \<and> c \<le> CHR ''Z'') \<or> (CHR ''a'' \<le> c \<and> c \<le> CHR ''z'') \<or>
     c = CHR ''-'' \<or> c = CHR ''.''"

text \<open>
  An optional group \<^verbatim>\<open>(?:X(?P<g>[0-9A-Za-z\-.]+))?\<close> with introducer \<open>X\<close>: the group's text and
  the rest of the input, or no group and the input untouched.
\<close>

definition opt_group :: "char \<Rightarrow> string \<Rightarrow> string option \<times> string" where
  "opt_group x s =
     (case s of
        [] \<Rightarrow> (None, s)
      | c # r \<Rightarrow>
          if c = x \<and> takeWhile is_ident r \<noteq> [] then (Some (takeWhile is_ident r), dropWhile is_ident r)
          else (None, s))"

text \<open>
  \<^verbatim>\<open>re.match\<close> of the pattern
  \<^verbatim>\<open>^(?P<major>\d+)\.(?P<minor>\d+)\.(?P<patch>\d+)(?:-(?P<prerelease>[0-9A-Za-z\-.]+))?(?:\+(?P<build>[0-9A-Za-z\-.]+))?$\<close>:
  the five groups. Every repetition is followed by a character outside its class, so the
  longest run is the only one that can match. Without \<^verbatim>\<open>re.MULTILINE\<close> the \<^verbatim>\<open>$\<close> also
  matches just before a newline that ends the text.
\<close>

definition version_match :: "string \<Rightarrow> (string \<times> string \<times> string \<times> string option \<times> string option) option" where
  "version_match s =
     (let ma = takeWhile is_digit s; r1 = dropWhile is_digit s in
      if ma = [] \<or> r1 = [] \<or> hd r1 \<noteq> CHR ''.'' then None else
      let mi = takeWhile is_digit (tl r1); r2 = dropWhile is_digit (tl r1) in
      if mi = [] \<or> r2 = [] \<or> hd r2 \<noteq> CHR ''.'' then None else
      let pa = takeWhile is_digit (tl r2); r3 = dropWhile is_digit (tl r2) in
      if pa = [] then None else
      let (pre, r4) = opt_group (CHR ''-'') r3;
          (bld, r5) = opt_group (CHR ''+'') r4 in
      if r5 = [] \<or> r5 = [NL] then Some (ma, mi, pa, pre, bld) else None)"

text \<open>\<^verbatim>\<open>Version.parse\<close>: \<open>Inl\<close> is the \<^verbatim>\<open>ValueError\<close> it raises.\<close>

definition Version_parse :: "string \<Rightarrow> error + Version" where
  "Version_parse version_str0 =
     (let version_str = dropWhile (\<lambda>c. c = CHR ''v'') version_str0 in
      case version_match version_str of
        None \<Rightarrow> Inl (ValueError (''Invalid semantic version: '' @ version_str))
      | Some (ma, mi, pa, pre, bld) \<Rightarrow>
          (case (py_int ma, py_int mi, py_int pa) of
             (Some a, Some b, Some c) \<Rightarrow>
               Inr \<lparr>major = a, minor = b, patch = c, prerelease = pre, build = bld\<rparr>
           | _ \<Rightarrow> Inl (ValueError (''Invalid version format: '' @ version_str))))"

text \<open>\<^verbatim>\<open>Version.bump\<close>.\<close>

fun bump :: "Version \<Rightarrow> BumpType \<Rightarrow> Version" where
  "bump v MAJOR = Version3 (major v + 1) 0 0"
| "bump v MINOR = Version3 (major v) (minor v + 1) 0"
| "bump v PATCH = Version3 (major v) (minor v) (patch v + 1)"
| "bump v NONE = Version3 (major v) (minor v) (patch v)"

text \<open>\<^verbatim>\<open>Version.with_prerelease\<close>.\<close>

definition with_prerelease :: "Version \<Rightarrow> string \<Rightarrow> int \<Rightarrow> Version" where
  "with_prerelease v pre counter =
     \<lparr>major = major v, minor = minor v, patch = patch v,
      prerelease = Some (pre @ ''.'' @ str_int counter), build = None\<rparr>"

text \<open>The sort key \<^verbatim>\<open>(v.major, v.minor, v.patch)\<close>; tuples compare lexicographically.\<close>

definition version_key :: "Version \<Rightarrow> int \<times> int \<times> int" where
  "version_key v = (major v, minor v, patch v)"

section \<open>Configuration (config.py)\<close>

record BranchConfig =
  bc_name :: string
  bc_type :: string
  bc_prerelease :: "string option"

record CommitTypeConfig =
  ct_name :: string
  ct_bump :: string
  ct_aliases :: "string list"

text \<open>
  The \<^verbatim>\<open>validation\<close> dictionary of the configuration: every key is optional, the
  validator reads each with \<^verbatim>\<open>.get(key, default)\<close>.
\<close>

record ValidationConfig =
  allowed_scopes :: "string list option"
  subject_min_length :: "int option"
  subject_max_length :: "int option"
  subject_lowercase :: "bool option"
  header_max_length :: "int option"
  body_max_line_length :: "int option"

text \<open>
  \<^verbatim>\<open>Config\<close> after construction: the ordered branch list, the commit types as the
  dictionary's items in insertion order, the validation dictionary and the tag format.
\<close>

record Config =
  branches :: "BranchConfig list"
  commit_types :: "(string \<times> CommitTypeConfig) list"
  validation_config :: ValidationConfig
  tag_format :: string

text \<open>\<^verbatim>\<open>d.get(key, default)\<close> on an optional entry.\<close>

fun dict_get :: "'a option \<Rightarrow> 'a \<Rightarrow> 'a" where
  "dict_get None d = d"
| "dict_get (Some x) d = x"

text \<open>\<^verbatim>\<open>Config.DEFAULT_CONFIG\<close> as the constructor parses it; it has no \<^verbatim>\<open>validation\<close> key.\<close>

definition DEFAULT_CONFIG :: Config where
  "DEFAULT_CONFIG =
     \<lparr>branches =
        [\<lparr>bc_name = ''main'', bc_type = ''release'', bc_prerelease = None\<rparr>,
         \<lparr>bc_name = ''master'', bc_type = ''release'', bc_prerelease = None\<rparr>,
         \<lparr>bc_name = ''dev'', bc_type = ''prerelease'', bc_prerelease = Some ''dev''\<rparr>,
         \<lparr>bc_name = ''develop'', bc_type = ''prerelease'', bc_prerelease = Some ''dev''\<rparr>],
      commit_types =
        [(''breaking'', \<lparr>ct_name = ''breaking'', ct_bump = ''major'', ct_aliases = []\<rparr>),
         (''feat'', \<lparr>ct_name = ''feat'', ct_bump = ''minor'', ct_aliases = [''feature'']\<rparr>),
         (''fix'', \<lparr>ct_name = ''fix'', ct_bump = ''patch'', ct_aliases = [''bugfix'', ''hotfix'']\<rparr>),
         (''perf'', \<lparr>ct_name = ''perf'', ct_bump = ''patch'', ct_aliases = []\<rparr>),
         (''revert'', \<lparr>ct_name = ''revert'', ct_bump = ''patch'', ct_aliases = []\<rparr>)],
      validation_config =
        \<lparr>allowed_scopes = None, subject_min_length = None, subject_max_length = None,
         subject_lowercase = None, header_max_length = None, body_max_line_length = None\<rparr>,
      tag_format = ''${version}''\<rparr>"

text \<open>
  \<^verbatim>\<open>Config.get_branch_config\<close>: the first branch whose pattern matches. The matcher
  \<^verbatim>\<open>fnmatch.fnmatch(name, pattern)\<close> belongs to the Python library, not to the repository,
  and is a parameter \<open>fnm name pattern\<close>.
\<close>

definition get_branch_config ::
  "(string \<Rightarrow> string \<Rightarrow> bool) \<Rightarrow> Config \<Rightarrow> string \<Rightarrow> BranchConfig option" where
  "get_branch_config fnm cfg branch_name =
     find (\<lambda>branch_cfg. fnm branch_name (bc_name branch_cfg)) (branches cfg)"

text \<open>\<^verbatim>\<open>Config.get_commit_type\<close>: a direct hit on the name, else the first type that
  lists the name among its aliases.\<close>

definition get_commit_type :: "Config \<Rightarrow> string \<Rightarrow> CommitTypeConfig option" where
  "get_commit_type cfg commit_type =
     (case map_of (commit_types cfg) commit_type of
        Some c \<Rightarrow> Some c
      | None \<Rightarrow>
          map_option snd (find (\<lambda>(name, c). commit_type \<in> set (ct_aliases c)) (commit_types cfg)))"

section \<open>Commit parser (commit_parser.py)\<close>

record ParsedCommit =
  pc_sha :: string
  pc_type :: string
  pc_scope :: "string option"
  pc_subject :: string
  pc_body :: string
  pc_breaking :: bool
  pc_bump :: BumpType

text \<open>
  The optional group \<^verbatim>\<open>(?:\((?P<scope>[^)]+)\))?\<close>: the scope and the rest, or no scope and
  the input untouched. \<^verbatim>\<open>[^)]\<close> also matches a newline.
\<close>

definition scope_group :: "string \<Rightarrow> string option \<times> string" where
  "scope_group s =
     (case s of
        [] \<Rightarrow> (None, s)
      | c # r \<Rightarrow>
          if c = CHR ''('' \<and> takeWhile (\<lambda>x. x \<noteq> CHR '')'') r \<noteq> [] \<and>
             dropWhile (\<lambda>x. x \<noteq> CHR '')'') r \<noteq> []
          then (Some (takeWhile (\<lambda>x. x \<noteq> CHR '')'') r), tl (dropWhile (\<lambda>x. x \<noteq> CHR '')'') r))
          else (None, s))"

text \<open>
  The tail \<^verbatim>\<open>\s*(?P<subject>.+)$\<close> of both header patterns, on a text without newline
  (a header is one line of a split at newlines): the greedy \<^verbatim>\<open>\s*\<close> takes all leading
  whitespace and the subject is the rest; when nothing is left it gives its last
  character back.
\<close>

definition subject_group :: "string \<Rightarrow> string option" where
  "subject_group r =
     (if dropWhile is_space r \<noteq> [] then Some (dropWhile is_space r)
      else if r \<noteq> [] then Some [last r]
      else None)"

text \<open>
  \<^verbatim>\<open>COMMIT_PATTERN.match(header)\<close> for
  \<^verbatim>\<open>^(?P<type>\w+)(?:\((?P<scope>[^)]+)\))?\s*:\s*(?P<subject>.+)$\<close>: the groups type, scope
  and subject. The type is followed by a character that is no word character and the
  scope by a closing parenthesis, so the longest run is the only one that can match.
\<close>

definition COMMIT_PATTERN_match :: "string \<Rightarrow> (string \<times> string option \<times> string) option" where
  "COMMIT_PATTERN_match header =
     (let ty = takeWhile is_word header;
          (sc, r1) = scope_group (dropWhile is_word header);
          r2 = dropWhile is_space r1 in
      if ty = [] \<or> r2 = [] \<or> hd r2 \<noteq> CHR '':'' then None
      else map_option (\<lambda>subj. (ty, sc, subj)) (subject_group (tl r2)))"

text \<open>
  \<^verbatim>\<open>\s*(.+)\<close> at the end of both breaking patterns, on any text: some count of leading
  whitespace characters is skipped and the next character is not a newline. After it
  \<^verbatim>\<open>.+\<close> runs to the end of the line, where the \<^verbatim>\<open>$\<close> of \<^verbatim>\<open>re.MULTILINE\<close> holds.
\<close>

definition ws_then_text :: "string \<Rightarrow> bool" where
  "ws_then_text r \<longleftrightarrow>
     dropWhile is_space r \<noteq> [] \<or> (\<exists>c \<in> set (takeWhile is_space r). c \<noteq> NL)"

text \<open>A literal under \<^verbatim>\<open>re.IGNORECASE\<close>: the rest of the text after it, if it is there.\<close>

fun strip_prefix_ci :: "string \<Rightarrow> string \<Rightarrow> string option" where
  "strip_prefix_ci [] s = Some s"
| "strip_prefix_ci (l # ls) [] = None"
| "strip_prefix_ci (l # ls) (c # cs) =
     (if to_lower c = to_lower l then strip_prefix_ci ls cs else None)"

text \<open>\<^verbatim>\<open>BREAKING[- ]CHANGE:\s*(.+)\<close> matched at the start of \<open>s\<close>.\<close>

definition breaking_footer_at :: "string \<Rightarrow> bool" where
  "breaking_footer_at s =
     (case strip_prefix_ci ''BREAKING'' s of
        None \<Rightarrow> False
      | Some r1 \<Rightarrow>
          (case r1 of
             [] \<Rightarrow> False
           | c # r2 \<Rightarrow>
               (c = CHR ''-'' \<or> c = CHR '' '') \<and>
               (case strip_prefix_ci ''CHANGE:'' r2 of
                  None \<Rightarrow> False
                | Some r3 \<Rightarrow> ws_then_text r3)))"

text \<open>\<^verbatim>\<open>^(\w+)(?:\([^)]+\))?!:\s*(.+)$\<close> matched at the start of a line \<open>s\<close>.\<close>

definition bang_header_at :: "string \<Rightarrow> bool" where
  "bang_header_at s =
     (let ty = takeWhile is_word s;
          (sc, r1) = scope_group (dropWhile is_word s) in
      ty \<noteq> [] \<and>
      (case r1 of
         c # d # r2 \<Rightarrow> c = CHR ''!'' \<and> d = CHR '':'' \<and> ws_then_text r2
       | _ \<Rightarrow> False))"

text \<open>\<^verbatim>\<open>pattern.search(text)\<close>: the pattern is tried at every position.\<close>

fun search :: "(string \<Rightarrow> bool) \<Rightarrow> string \<Rightarrow> bool" where
  "search p [] = p []"
| "search p (c # cs) = (p (c # cs) \<or> search p cs)"

text \<open>The positions just after a newline.\<close>

fun search_after_newline :: "(string \<Rightarrow> bool) \<Rightarrow> string \<Rightarrow> bool" where
  "search_after_newline p [] = False"
| "search_after_newline p (c # cs) = ((c = NL \<and> p cs) \<or> search_after_newline p cs)"

text \<open>\<^verbatim>\<open>pattern.search(text)\<close> for a pattern that begins with \<^verbatim>\<open>^\<close> under
  \<^verbatim>\<open>re.MULTILINE\<close>: the pattern is tried at the start of every line.\<close>

definition search_line_start :: "(string \<Rightarrow> bool) \<Rightarrow> string \<Rightarrow> bool" where
  "search_line_start p s \<longleftrightarrow> p s \<or> search_after_newline p s"

text \<open>\<^verbatim>\<open>BREAKING_PATTERNS\<close>, each as its \<^verbatim>\<open>search\<close>.\<close>

definition BREAKING_PATTERNS :: "(string \<Rightarrow> bool) list" where
  "BREAKING_PATTERNS = [search breaking_footer_at, search_line_start bang_header_at]"

text \<open>\<^verbatim>\<open>ConventionalCommitParser._is_breaking\<close>.\<close>

definition is_breaking :: "string \<Rightarrow> string \<Rightarrow> bool" where
  "is_breaking header body =
     (if CHR ''!'' \<in> set (hd (py_split (CHR '':'') header)) then True
      else list_ex (\<lambda>pattern. pattern body) BREAKING_PATTERNS)"

text \<open>\<^verbatim>\<open>ConventionalCommitParser._determine_bump\<close>.\<close>

definition bump_map :: "(string \<times> BumpType) list" where
  "bump_map = [(''major'', MAJOR), (''minor'', MINOR), (''patch'', PATCH)]"

definition determine_bump :: "Config \<Rightarrow> string \<Rightarrow> bool \<Rightarrow> BumpType" where
  "determine_bump cfg commit_type breaking =
     (if breaking then MAJOR
      else case get_commit_type cfg commit_type of
             None \<Rightarrow> NONE
           | Some type_config \<Rightarrow> dict_get (map_of bump_map (ct_bump type_config)) NONE)"

text \<open>\<^verbatim>\<open>ConventionalCommitParser.parse\<close>: \<open>None\<close> when the header is no conventional
  commit header.\<close>

definition parser_parse :: "Config \<Rightarrow> string \<Rightarrow> string \<Rightarrow> ParsedCommit option" where
  "parser_parse cfg commit_message commit_sha =
     (let lines = py_split NL (py_strip commit_message) in
      if lines = [] then None else
      let header = py_strip (hd lines) in
      case COMMIT_PATTERN_match header of
        None \<Rightarrow> None
      | Some (ty, scope, subj) \<Rightarrow>
          let commit_type = py_lower ty;
              subject = py_strip subj;
              body = py_strip (py_join [NL] (tl lines));
              breaking = is_breaking header body;
              bump = determine_bump cfg commit_type breaking
          in Some \<lparr>pc_sha = commit_sha, pc_type = commit_type, pc_scope = scope,
                   pc_subject = subject, pc_body = body, pc_breaking = breaking,
                   pc_bump = bump\<rparr>)"


section \<open>Commit validator (commit_validator.py)\<close>

datatype ValidationLevel = ERROR | WARNING | INFO

record ValidationResult =
  level :: ValidationLevel
  message :: string
  line :: "int option"

definition QUOTE :: char where
  "QUOTE = CHR 0x27"

text \<open>
  \<^verbatim>\<open>CommitMessageValidator.COMMIT_PATTERN.match(header)\<close> for
  \<^verbatim>\<open>^(?P<type>\w+)(?:\((?P<scope>[^)]+)\))?(?P<breaking>!)?\s*:\s*(?P<subject>.+)$\<close>: the
  groups type, scope, breaking (whether it took part) and subject.
\<close>

definition validator_COMMIT_PATTERN_match ::
  "string \<Rightarrow> (string \<times> string option \<times> bool \<times> string) option" where
  "validator_COMMIT_PATTERN_match header =
     (let ty = takeWhile is_word header;
          (sc, r1) = scope_group (dropWhile is_word header);
          (br, r1') = (case r1 of [] \<Rightarrow> (False, r1)
                       | c # r \<Rightarrow> if c = CHR ''!'' then (True, r) else (False, r1));
          r2 = dropWhile is_space r1' in
      if ty = [] \<or> r2 = [] \<or> hd r2 \<noteq> CHR '':'' then None
      else map_option (\<lambda>subj. (ty, sc, br, subj)) (subject_group (tl r2)))"

text \<open>\<^verbatim>\<open>SCOPE_PATTERN.match(scope)\<close> for \<^verbatim>\<open>^[a-zA-Z0-9_-]+$\<close>.\<close>

definition is_scope_char :: "char \<Rightarrow> bool" where
  "is_scope_char c \<longleftrightarrow>
     (CHR ''a'' \<le> c \<and> c \<le> CHR ''z'') \<or> (CHR ''A'' \<le> c \<and> c \<le> CHR ''Z'') \<or> is_digit c \<or>
     c = CHR ''_'' \<or> c = CHR ''-''"

definition SCOPE_PATTERN_match :: "string \<Rightarrow> bool" where
  "SCOPE_PATTERN_match scope \<longleftrightarrow>
     takeWhile is_scope_char scope \<noteq> [] \<and>
     (dropWhile is_scope_char scope = [] \<or> dropWhile is_scope_char scope = [NL])"

text \<open>\<^verbatim>\<open>sub in s\<close> on strings.\<close>

definition starts_with :: "string \<Rightarrow> string \<Rightarrow> bool" where
  "starts_with sub s \<longleftrightarrow> take (length sub) s = sub"

definition contains :: "string \<Rightarrow> string \<Rightarrow> bool" where
  "contains sub s \<longleftrightarrow> search (starts_with sub) s"

definition validate_type :: "Config \<Rightarrow> string \<Rightarrow> ValidationResult list" where
  "validate_type cfg commit_type =
     (let allowed_types =
            map fst (commit_types cfg) @ concat (map (\<lambda>(name, c). ct_aliases c) (commit_types cfg)) in
      if commit_type \<notin> set allowed_types then
        [\<lparr>level = ERROR,
          message = ''Invalid commit type '' @ [QUOTE] @ commit_type @ [QUOTE] @
                    ''. Allowed types: '' @ py_join '', '' (sort (remdups allowed_types)),
          line = Some 1\<rparr>]
      else [])"

definition validate_scope :: "Config \<Rightarrow> string \<Rightarrow> ValidationResult list" where
  "validate_scope cfg scope =
     (let results =
            (if \<not> SCOPE_PATTERN_match scope then
               [\<lparr>level = ERROR,
                 message = ''Invalid scope format '' @ [QUOTE] @ scope @ [QUOTE] @
                           ''. Use only alphanumeric, dash, or underscore'',
                 line = Some 1\<rparr>]
             else []);
          allowed = dict_get (allowed_scopes (validation_config cfg)) [] in
      if allowed \<noteq> [] \<and> scope \<notin> set allowed then
        results @
        [\<lparr>level = WARNING,
          message = ''Scope '' @ [QUOTE] @ scope @ [QUOTE] @ '' is not in allowed list: '' @
                    py_join '', '' allowed,
          line = Some 1\<rparr>]
      else results)"

definition validate_subject :: "Config \<Rightarrow> string \<Rightarrow> ValidationResult list" where
  "validate_subject cfg subject =
     (let min_length = dict_get (subject_min_length (validation_config cfg)) 3;
          max_length = dict_get (subject_max_length (validation_config cfg)) 100;
          len = int (length subject) in
      (if len < min_length then
         [\<lparr>level = ERROR,
           message = ''Subject too short ('' @ str_int len @ '' chars). Minimum: '' @
                     str_int min_length @ '' chars'',
           line = Some 1\<rparr>]
       else []) @
      (if len > max_length then
         [\<lparr>level = ERROR,
           message = ''Subject too long ('' @ str_int len @ '' chars). Maximum: '' @
                     str_int max_length @ '' chars'',
           line = Some 1\<rparr>]
       else []) @
      (if dict_get (subject_lowercase (validation_config cfg)) True \<and> subject \<noteq> [] \<and>
          is_upper (hd subject) then
         [\<lparr>level = WARNING, message = ''Subject should start with lowercase letter'',
           line = Some 1\<rparr>]
       else []) @
      (if subject \<noteq> [] \<and> last subject = CHR ''.'' then
         [\<lparr>level = WARNING, message = ''Subject should not end with a period'', line = Some 1\<rparr>]
       else []))"

definition validate_breaking_indicator :: "ValidationResult list" where
  "validate_breaking_indicator =
     [\<lparr>level = INFO,
       message = ''Breaking change indicator (!) detected. Ensure BREAKING CHANGE in body or footer'',
       line = Some 1\<rparr>]"

definition validate_header_length :: "Config \<Rightarrow> string \<Rightarrow> ValidationResult list" where
  "validate_header_length cfg header =
     (let max_header_length = dict_get (header_max_length (validation_config cfg)) 100 in
      if int (length header) > max_header_length then
        [\<lparr>level = ERROR,
          message = ''Header too long ('' @ str_int (int (length header)) @ '' chars). Maximum: '' @
                    str_int max_header_length @ '' chars'',
          line = Some 1\<rparr>]
      else [])"

definition validate_header :: "Config \<Rightarrow> string \<Rightarrow> ValidationResult list" where
  "validate_header cfg header =
     (case validator_COMMIT_PATTERN_match header of
        None \<Rightarrow>
          [\<lparr>level = ERROR,
            message = ''Header does not match conventional commit format: '' @ [QUOTE] @ header @
                      [QUOTE],
            line = Some 1\<rparr>,
           \<lparr>level = INFO,
            message = ''Expected format: type(scope): subject or type: subject'',
            line = Some 1\<rparr>]
      | Some (ty, scope, breaking, subj) \<Rightarrow>
          validate_type cfg (py_lower ty) @
          (if truthy scope then validate_scope cfg (the scope) else []) @
          validate_subject cfg (py_strip subj) @
          (if breaking then validate_breaking_indicator else []) @
          validate_header_length cfg header)"

text \<open>The WARNING of \<^verbatim>\<open>_validate_body\<close> for line \<open>i\<close> of the message, the text \<open>ln\<close>.\<close>

definition body_line_warning :: "int \<Rightarrow> int \<Rightarrow> string \<Rightarrow> ValidationResult" where
  "body_line_warning max_line_length i ln =
     \<lparr>level = WARNING,
      message = ''Body line '' @ str_int (i - 2) @ '' too long ('' @ str_int (int (length ln)) @
                '' chars). Maximum: '' @ str_int max_line_length @ '' chars'',
      line = Some i\<rparr>"

definition validate_body :: "Config \<Rightarrow> string \<Rightarrow> int \<Rightarrow> ValidationResult list" where
  "validate_body cfg body total_lines =
     (let max_line_length = dict_get (body_max_line_length (validation_config cfg)) 100;
          results =
            concat (map (\<lambda>(i, ln). if int (length ln) > max_line_length
                                    then [body_line_warning max_line_length i ln] else [])
                        (enumerate_from 3 (py_split NL body))) in
      if contains ''BREAKING CHANGE:'' body \<or> contains ''BREAKING-CHANGE:'' body then
        results @ [\<lparr>level = INFO, message = ''BREAKING CHANGE detected in body'', line = None\<rparr>]
      else results)"

text \<open>\<^verbatim>\<open>CommitMessageValidator.validate\<close>.\<close>

definition validate :: "Config \<Rightarrow> string \<Rightarrow> ValidationResult list" where
  "validate cfg commit_message =
     (let lines = py_split NL (py_strip commit_message) in
      if lines = [] then [\<lparr>level = ERROR, message = ''Commit message is empty'', line = None\<rparr>]
      else
        let header = py_strip (hd lines);
            results = validate_header cfg header in
        if length lines > 1 then
          (let body = py_strip (py_join [NL] (tl lines)) in
           if body \<noteq> [] then results @ validate_body cfg body (int (length lines)) else results)
        else results)"

section \<open>Version calculator (version_calc.py)\<close>

text \<open>
  The git repository as the calculator sees it: the tag names (after the attempted
  fetch) and the glob matcher of \<^verbatim>\<open>git tag -l <pattern>\<close>, \<open>tag_glob pattern name\<close>. The
  matcher is git's, not the repository's, and stays a parameter.
\<close>

record GitHelper =
  tag_names :: "string list"
  tag_glob :: "string \<Rightarrow> string \<Rightarrow> bool"

text \<open>\<^verbatim>\<open>GitHelper.get_tags_matching\<close>: the listed names, empty strings filtered out.\<close>

definition get_tags_matching :: "GitHelper \<Rightarrow> string \<Rightarrow> string list" where
  "get_tags_matching git pattern = [t \<leftarrow> tag_names git. tag_glob git pattern t \<and> t \<noteq> []]"

text \<open>
  \<^verbatim>\<open>xs.sort(key=k, reverse=True)\<close>: a stable sort that keeps the original order of equal
  keys, which is a stable ascending sort of the reversed list, reversed.
\<close>

definition sort_reverse :: "('a \<Rightarrow> 'k::linorder) \<Rightarrow> 'a list \<Rightarrow> 'a list" where
  "sort_reverse k xs = rev (sort_key k (rev xs))"

text \<open>\<^verbatim>\<open>VersionCalculator._get_latest_stable_version\<close>.\<close>

definition stable_versions_of :: "string list \<Rightarrow> Version list" where
  "stable_versions_of all_tags =
     concat (map (\<lambda>tag. case Version_parse tag of
                          Inl e \<Rightarrow> []
                        | Inr version \<Rightarrow> if prerelease version = None then [version] else [])
                 all_tags)"

definition get_latest_stable_version :: "GitHelper \<Rightarrow> Version option" where
  "get_latest_stable_version git =
     (let all_tags = get_tags_matching git ''*'';
          stable_versions = stable_versions_of all_tags in
      if stable_versions = [] then None
      else Some (hd (sort_reverse version_key stable_versions)))"

text \<open>
  The loop body of \<^verbatim>\<open>_get_prerelease_counter\<close>: the counter one tag contributes, if
  any. A tag that fails to parse or whose second segment is no integer is skipped.
\<close>

definition tag_counter :: "string \<Rightarrow> string \<Rightarrow> int option" where
  "tag_counter prerelease_id tag =
     (case Version_parse tag of
        Inl e \<Rightarrow> None
      | Inr version \<Rightarrow>
          if truthy (prerelease version) then
            (let parts = py_split (CHR ''.'') (the (prerelease version)) in
             if length parts \<ge> 2 \<and> parts ! 0 = prerelease_id then py_int (parts ! 1) else None)
          else None)"

text \<open>\<^verbatim>\<open>VersionCalculator._get_prerelease_counter\<close>.\<close>

definition get_prerelease_counter :: "GitHelper \<Rightarrow> Version \<Rightarrow> string \<Rightarrow> string \<Rightarrow> int" where
  "get_prerelease_counter git base_version prerelease_id branch_name =
     (let pattern = to_string base_version @ ''-'' @ prerelease_id @ ''.*'';
          matching_tags = get_tags_matching git pattern in
      if matching_tags = [] then 1
      else
        let counters = concat (map (\<lambda>tag. case tag_counter prerelease_id tag of
                                             None \<Rightarrow> [] | Some n \<Rightarrow> [n])
                                   matching_tags) in
        if counters \<noteq> [] then Max (set counters) + 1 else 1)"

text \<open>\<^verbatim>\<open>VersionCalculator._calculate_prerelease_version\<close>.\<close>

definition calculate_prerelease_version ::
  "GitHelper \<Rightarrow> ParsedCommit list \<Rightarrow> BumpType \<Rightarrow> string \<Rightarrow> Version" where
  "calculate_prerelease_version git commits max_bump prerelease_id =
     (let stable_version = (case get_latest_stable_version git of
                              None \<Rightarrow> Version3 0 0 0 | Some v \<Rightarrow> v);
          next_base_version = bump stable_version max_bump;
          counter = get_prerelease_counter git next_base_version prerelease_id []
      in with_prerelease next_base_version prerelease_id counter)"

text \<open>\<^verbatim>\<open>VersionCalculator.calculate_next_version\<close>: \<open>None\<close> is the \<^verbatim>\<open>None\<close> it returns; it
  raises nothing.\<close>

definition calculate_next_version ::
  "(string \<Rightarrow> string \<Rightarrow> bool) \<Rightarrow> Config \<Rightarrow> GitHelper \<Rightarrow> ParsedCommit list \<Rightarrow> Version option \<Rightarrow>
   string \<Rightarrow> BumpType \<Rightarrow> Version option" where
  "calculate_next_version fnm cfg git commits current_version branch_name max_bump =
     (case get_branch_config fnm cfg branch_name of
        None \<Rightarrow> None
      | Some branch_config \<Rightarrow>
          if max_bump = NONE then None
          else if truthy (bc_prerelease branch_config) then
            Some (calculate_prerelease_version git commits max_bump
                    (the (bc_prerelease branch_config)))
          else
            let base_version =
                  (case current_version of
                     None \<Rightarrow> Version3 0 0 0
                   | Some cv \<Rightarrow> Version3 (major cv) (minor cv) (patch cv))
            in Some (bump base_version max_bump))"

subsection \<open>A concrete glob matcher\<close>

text \<open>
  The scenarios below run with this matcher for both globs: \<^verbatim>\<open>*\<close> matches any run of
  characters, \<^verbatim>\<open>?\<close> any one character, every other character itself. That is what
  \<^verbatim>\<open>fnmatch\<close> and \<^verbatim>\<open>git tag -l\<close> do on a pattern without brackets and backslashes.
\<close>

fun glob :: "string \<Rightarrow> string \<Rightarrow> bool" where
  "glob [] s = (s = [])"
| "glob (p # ps) [] = (p = CHR ''*'' \<and> glob ps [])"
| "glob (p # ps) (c # cs) =
     (if p = CHR ''*'' then glob ps (c # cs) \<or> glob (p # ps) cs
      else (p = CHR ''?'' \<or> p = c) \<and> glob ps cs)"


section \<open>Notions of the specification\<close>

text \<open>
  The grammar of the specification for version strings,
  \<^verbatim>\<open>^\d+\.\d+\.\d+(-[0-9A-Za-z.-]+)?(\+[0-9A-Za-z.-]+)?$\<close>, stated on the text itself:
  three runs of digits separated by dots, then an optional prerelease after a hyphen and
  an optional build after a plus sign.
\<close>

definition digits :: "string \<Rightarrow> bool" where
  "digits s \<longleftrightarrow> s \<noteq> [] \<and> (\<forall>c \<in> set s. is_digit c)"

definition ident_text :: "string \<Rightarrow> bool" where
  "ident_text s \<longleftrightarrow> s \<noteq> [] \<and> (\<forall>c \<in> set s. is_ident c)"

fun opt_ident :: "string option \<Rightarrow> bool" where
  "opt_ident None = True"
| "opt_ident (Some p) = ident_text p"

fun opt_suffix :: "char \<Rightarrow> string option \<Rightarrow> string" where
  "opt_suffix x None = []"
| "opt_suffix x (Some p) = x # p"

definition semver_text :: "string \<Rightarrow> string \<Rightarrow> string \<Rightarrow> string option \<Rightarrow> string option \<Rightarrow> string" where
  "semver_text ma mi pa pre bld =
     ma @ ''.'' @ mi @ ''.'' @ pa @ opt_suffix (CHR ''-'') pre @ opt_suffix (CHR ''+'') bld"

text \<open>The specification's \<^verbatim>\<open>normalize\<close>: one leading \<^verbatim>\<open>v\<close> is stripped.\<close>

definition normalize_version :: "string \<Rightarrow> string" where
  "normalize_version V = (case V of [] \<Rightarrow> [] | c # r \<Rightarrow> if c = CHR ''v'' then r else V)"

text \<open>A number written without superfluous leading zeros.\<close>

definition no_leading_zero :: "string \<Rightarrow> bool" where
  "no_leading_zero s \<longleftrightarrow> s = ''0'' \<or> hd s \<noteq> CHR ''0''"

subsection \<open>Breaking changes\<close>

text \<open>The header and the body as \<^verbatim>\<open>parse\<close> and \<^verbatim>\<open>validate\<close> cut them out of a message.\<close>

definition message_header :: "string \<Rightarrow> string" where
  "message_header msg = py_strip (hd (py_split NL (py_strip msg)))"

definition message_body :: "string \<Rightarrow> string" where
  "message_body msg = py_strip (py_join [NL] (tl (py_split NL (py_strip msg))))"

text \<open>Equality up to case.\<close>

definition ci_equal :: "string \<Rightarrow> string \<Rightarrow> bool" where
  "ci_equal a b \<longleftrightarrow> py_lower a = py_lower b"

text \<open>An exclamation mark in the part of the header before the first colon.\<close>

definition bang_before_colon :: "string \<Rightarrow> bool" where
  "bang_before_colon header \<longleftrightarrow> CHR ''!'' \<in> set (takeWhile (\<lambda>c. c \<noteq> CHR '':'') header)"

text \<open>Some character other than a newline follows.\<close>

definition has_text :: "string \<Rightarrow> bool" where
  "has_text r \<longleftrightarrow> (\<exists>c \<in> set r. c \<noteq> NL)"

text \<open>\<^verbatim>\<open>BREAKING CHANGE:\<close> or \<^verbatim>\<open>BREAKING-CHANGE:\<close> in any case, at any position of the body,
  with text after it.\<close>

definition footer_anywhere :: "string \<Rightarrow> bool" where
  "footer_anywhere body \<longleftrightarrow>
     (\<exists>pre kw rest. body = pre @ kw @ rest \<and>
        (ci_equal kw ''BREAKING CHANGE:'' \<or> ci_equal kw ''BREAKING-CHANGE:'') \<and> has_text rest)"

text \<open>Nothing, or a parenthesised scope.\<close>

definition scope_text :: "string \<Rightarrow> bool" where
  "scope_text sc \<longleftrightarrow>
     sc = [] \<or> (\<exists>inner. inner \<noteq> [] \<and> CHR '')'' \<notin> set inner \<and> sc = CHR ''('' # inner @ '')'')"

text \<open>A line of the body that starts like a header with the marker:
  \<^verbatim>\<open>type!: text\<close> or \<^verbatim>\<open>type(scope)!: text\<close>.\<close>

definition bang_line :: "string \<Rightarrow> bool" where
  "bang_line body \<longleftrightarrow>
     (\<exists>pre ty sc rest. body = pre @ ty @ sc @ ''!:'' @ rest \<and> (pre = [] \<or> last pre = NL) \<and>
        ty \<noteq> [] \<and> (\<forall>c \<in> set ty. is_word c) \<and> scope_text sc \<and> has_text rest)"

text \<open>The footer as claim C3 words it: a line of the body that begins, in any case, with
  \<^verbatim>\<open>BREAKING CHANGE:\<close> or \<^verbatim>\<open>BREAKING-CHANGE:\<close>.\<close>

definition footer_at_line_start :: "string \<Rightarrow> bool" where
  "footer_at_line_start body \<longleftrightarrow>
     (\<exists>ln \<in> set (py_split NL body).
        ci_equal (take 16 ln) ''BREAKING CHANGE:'' \<or> ci_equal (take 16 ln) ''BREAKING-CHANGE:'')"

text \<open>The messages of two scenarios.\<close>

definition unanchored_footer_message :: string where
  "unanchored_footer_message = ''fix: a'' @ [NL, NL] @ ''not a breaking change: x''"

definition breaking_type_message :: string where
  "breaking_type_message = ''breaking: remove old api'' @ [NL, NL] @ ''the old api is gone''"

text \<open>A message of type \<^verbatim>\<open>breaking\<close> with the footer words inside a line of its body.\<close>

definition midline_footer_message :: string where
  "midline_footer_message =
     ''breaking: remove old api'' @ [NL, NL] @ ''this is not a breaking change: x''"

subsection \<open>Body lines\<close>

text \<open>The configured maximum length of a body line, 100 by default.\<close>

definition max_body_line :: "Config \<Rightarrow> int" where
  "max_body_line cfg = dict_get (body_max_line_length (validation_config cfg)) 100"

text \<open>
  One WARNING for each line of \<open>ls\<close> longer than the maximum, in order; the line at
  position \<open>j\<close>, counted from 0, carries the number \<open>j + offset\<close>.
\<close>

definition numbered_warnings :: "int \<Rightarrow> int \<Rightarrow> string list \<Rightarrow> ValidationResult list" where
  "numbered_warnings max_len offset ls =
     [body_line_warning max_len (int j + offset) (ls ! j).
        j \<leftarrow> [0..<length ls], int (length (ls ! j)) > max_len]"

text \<open>
  The layout the validator assumes: the header, one blank line, the body, with no
  whitespace around the message and none around the body.
\<close>

definition canonical_layout :: "string \<Rightarrow> string \<Rightarrow> string \<Rightarrow> bool" where
  "canonical_layout msg header body \<longleftrightarrow>
     msg = header @ [NL, NL] @ body \<and> NL \<notin> set header \<and>
     header \<noteq> [] \<and> \<not> is_space (hd header) \<and>
     body \<noteq> [] \<and> \<not> is_space (hd body) \<and> \<not> is_space (last body)"

text \<open>The messages of two scenarios: a body right after the header, and the assumed layout.\<close>

definition no_separator_message :: string where
  "no_separator_message = ''feat: add x'' @ [NL] @ replicate 101 (CHR ''a'')"

definition canonical_message :: string where
  "canonical_message = ''feat: add x'' @ [NL, NL] @ ''short'' @ [NL] @ replicate 101 (CHR ''a'')"

subsection \<open>Prerelease versions\<close>

text \<open>The (major, minor, patch) triples of the tags that parse as a version without
  prerelease.\<close>

definition stable_keys :: "string list \<Rightarrow> (int \<times> int \<times> int) set" where
  "stable_keys tags =
     {version_key v | t v. t \<in> set tags \<and> Version_parse t = Inr v \<and> prerelease v = None}"

text \<open>The maximum stable version of a tag list, (0, 0, 0) when there is none.\<close>

definition max_stable_version :: "string list \<Rightarrow> Version" where
  "max_stable_version tags =
     (if stable_keys tags = {} then Version3 0 0 0
      else case Max (stable_keys tags) of (a, b, c) \<Rightarrow> Version3 a b c)"

text \<open>
  The counters of a tag list for an identifier: the integers \<open>n\<close> for which some tag
  parses as a version whose prerelease is the identifier, a dot and a segment that
  \<^verbatim>\<open>int\<close> reads as \<open>n\<close>, with or without further dot-separated segments.
\<close>

definition counted :: "string \<Rightarrow> string list \<Rightarrow> int set" where
  "counted ident tags =
     {n. \<exists>t \<in> set tags. \<exists>v seg more.
           Version_parse t = Inr v \<and> prerelease v = Some (ident @ ''.'' @ seg @ more) \<and>
           CHR ''.'' \<notin> set seg \<and> (more = [] \<or> hd more = CHR ''.'') \<and> py_int seg = Some n}"

text \<open>One plus the maximum counter, or 1 when there is none.\<close>

definition next_counter :: "int set \<Rightarrow> int" where
  "next_counter C = (if C = {} then 1 else Max C + 1)"

text \<open>The tags of the scenario of the specification, and a configuration whose
  prerelease identifier contains a dot.\<close>

definition scenario_git :: GitHelper where
  "scenario_git = \<lparr>tag_names = [''1.2.0'', ''1.2.1-dev.1'', ''1.2.1-dev.2''], tag_glob = glob\<rparr>"

definition dotted_config :: Config where
  "dotted_config =
     DEFAULT_CONFIG\<lparr>branches :=
       [\<lparr>bc_name = ''next'', bc_type = ''prerelease'', bc_prerelease = Some ''rc.x''\<rparr>]\<rparr>"

definition dotted_git :: GitHelper where
  "dotted_git = \<lparr>tag_names = [''1.2.0'', ''1.2.1-rc.x.1''], tag_glob = glob\<rparr>"

text \<open>The message of the lower-case footer scenario.\<close>

definition lowercase_footer_message :: string where
  "lowercase_footer_message =
     ''fix: correct thing'' @ [NL, NL] @ ''breaking change: removes old api''"

section \<open>Bump\<close>

text \<open>
  C5. For every version \<open>V\<close> and every severity \<open>S\<close> among MAJOR, MINOR and PATCH,
  \<open>bump V S\<close> is strictly greater than \<open>V\<close> in the lexicographic order of
  (major, minor, patch); \<open>bump V NONE\<close> is the version with the three numbers of \<open>V\<close> and
  neither prerelease nor build; and for every severity the result of \<open>bump\<close> has
  neither prerelease nor build.
\<close>

theorem bump_monotone_and_clears:
  "(S \<noteq> NONE \<longrightarrow> version_key V < version_key (bump V S)) \<and>
   bump V NONE = \<lparr>major = major V, minor = minor V, patch = patch V,
                   prerelease = None, build = None\<rparr> \<and>
   prerelease (bump V S) = None \<and> build (bump V S) = None"
  by (cases S) (simp_all add: version_key_def Version3_def)

theorem bump_monotone_and_clears_witness:
  "version_key \<lparr>major = 1, minor = 2, patch = 3, prerelease = Some ''rc.1'', build = Some ''b7''\<rparr>
     < version_key (bump \<lparr>major = 1, minor = 2, patch = 3, prerelease = Some ''rc.1'',
                          build = Some ''b7''\<rparr> MINOR) \<and>
   bump \<lparr>major = 1, minor = 2, patch = 3, prerelease = Some ''rc.1'', build = Some ''b7''\<rparr> MINOR
     = \<lparr>major = 1, minor = 3, patch = 0, prerelease = None, build = None\<rparr>"
  using bump_monotone_and_clears
    [of MINOR "\<lparr>major = 1, minor = 2, patch = 3, prerelease = Some ''rc.1'', build = Some ''b7''\<rparr>"]
  by (simp add: Version3_def)

section \<open>Empty commit message\<close>

text \<open>
  C7 (the code differs). The claim: for an empty commit message \<open>validate\<close> returns exactly
  one finding, an ERROR, and performs no further check. In the code the emptiness test
  reads the list that \<^verbatim>\<open>split\<close> returns, which is never empty, so the empty message goes
  on to the header check and comes back with two findings, the format ERROR and the INFO
  hint, whatever the configuration.
\<close>

theorem validate_empty_message:
  "validate cfg [] =
     [\<lparr>level = ERROR,
       message = ''Header does not match conventional commit format: '' @ [QUOTE, QUOTE],
       line = Some 1\<rparr>,
      \<lparr>level = INFO,
       message = ''Expected format: type(scope): subject or type: subject'',
       line = Some 1\<rparr>]"
  by (simp add: validate_def py_strip_def lstrip_def rstrip_def validate_header_def
      validator_COMMIT_PATTERN_match_def scope_group_def)

section \<open>Lower-case footer: parser against validator\<close>

text \<open>
  C10. There is a message whose body holds a lower-case \<^verbatim>\<open>breaking change:\<close> line for which
  the parser reports a breaking commit with bump MAJOR, its detection ignoring case,
  while the validator, whose body check compares case, reports no finding at all, so in
  particular no INFO about a BREAKING CHANGE in the body.
\<close>

theorem lowercase_footer_parser_vs_validator:
  "parser_parse DEFAULT_CONFIG lowercase_footer_message sha =
     Some \<lparr>pc_sha = sha, pc_type = ''fix'', pc_scope = None, pc_subject = ''correct thing'',
           pc_body = ''breaking change: removes old api'', pc_breaking = True,
           pc_bump = MAJOR\<rparr> \<and>
   validate DEFAULT_CONFIG lowercase_footer_message = []"
  unfolding lowercase_footer_message_def by code_simp

section \<open>Several leading v\<close>

text \<open>
  C6 (the code differs). The claim: \<open>Version.parse\<close> fails exactly when the text, after one
  optional leading \<^verbatim>\<open>v\<close> is stripped, does not match the pattern, so a text with two
  leading \<^verbatim>\<open>v\<close> must fail. The code removes the prefix with \<^verbatim>\<open>lstrip('v')\<close>, which drops
  every leading \<^verbatim>\<open>v\<close>: \<^verbatim>\<open>vv1.2.3\<close> parses, although \<^verbatim>\<open>v1.2.3\<close>, the text after one strip,
  does not match the pattern.
\<close>

theorem parse_two_leading_v:
  "Version_parse ''vv1.2.3'' =
     Inr \<lparr>major = 1, minor = 2, patch = 3, prerelease = None, build = None\<rparr> \<and>
   version_match ''v1.2.3'' = None"
  by code_simp

section \<open>Branch without configuration\<close>

text \<open>
  C2 as stated fails: on the default configuration the branch \<^verbatim>\<open>feature/x\<close> matches no
  pattern, and the calculator returns for it the very value it returns on \<^verbatim>\<open>main\<close> when
  no bump is needed.
\<close>

theorem unconfigured_branch_indistinguishable:
  "get_branch_config (\<lambda>name pat. glob pat name) DEFAULT_CONFIG ''feature/x'' = None \<and>
   calculate_next_version (\<lambda>name pat. glob pat name) DEFAULT_CONFIG
     \<lparr>tag_names = [''1.2.0''], tag_glob = glob\<rparr> [] None ''feature/x'' PATCH =
   calculate_next_version (\<lambda>name pat. glob pat name) DEFAULT_CONFIG
     \<lparr>tag_names = [''1.2.0''], tag_glob = glob\<rparr> [] None ''main'' NONE"
  by code_simp

text \<open>
  C2, amended. For every branch name that matches none of the configured patterns,
  \<open>calculate_next_version\<close> returns \<open>None\<close>, and \<open>None\<close> is also what it returns on any
  branch when the bump is NONE: the function has no failure of its own, and its result
  does not tell a missing configuration from no release needed.
\<close>

theorem unconfigured_branch_returns_None:
  assumes "\<forall>b \<in> set (branches cfg). \<not> fnm branch_name (bc_name b)"
  shows "calculate_next_version fnm cfg git commits current_version branch_name max_bump = None \<and>
         calculate_next_version fnm cfg git commits' current_version' branch_name' NONE = None"
proof -
  have "get_branch_config fnm cfg branch_name = None"
    using assms by (simp add: get_branch_config_def find_None_iff)
  then show ?thesis
    by (simp add: calculate_next_version_def split: option.split)
qed

theorem unconfigured_branch_returns_None_witness:
  "calculate_next_version (\<lambda>name pat. glob pat name) DEFAULT_CONFIG
     \<lparr>tag_names = [''1.2.0''], tag_glob = glob\<rparr> [] None ''feature/x'' PATCH = None \<and>
   calculate_next_version (\<lambda>name pat. glob pat name) DEFAULT_CONFIG
     \<lparr>tag_names = [''1.2.0''], tag_glob = glob\<rparr> [] None ''main'' NONE = None"
proof -
  have h: "\<forall>b \<in> set (branches DEFAULT_CONFIG). \<not> (\<lambda>name pat. glob pat name) ''feature/x'' (bc_name b)"
    by code_simp
  show ?thesis
    by (rule unconfigured_branch_returns_None
          [where fnm = "\<lambda>name pat. glob pat name" and cfg = DEFAULT_CONFIG
             and branch_name = "''feature/x''", OF h])
qed

section \<open>Version strings: parse and format\<close>

subsection \<open>Digits\<close>

lemma digit_not_others:
  "is_digit c \<Longrightarrow> c \<noteq> CHR ''.'' \<and> c \<noteq> CHR ''-'' \<and> c \<noteq> CHR ''+'' \<and> c \<noteq> CHR ''_'' \<and> c \<noteq> CHR ''v''
     \<and> \<not> is_int_space c \<and> is_ident c"
  by (auto simp: is_digit_def is_int_space_def is_space_def is_ident_def less_eq_char_def)

lemma ident_not_plus: "is_ident c \<Longrightarrow> c \<noteq> CHR ''+''"
  by (auto simp: is_ident_def is_digit_def)

lemma span_class:
  assumes "\<forall>c \<in> set xs. P c" and "ys = [] \<or> \<not> P (hd ys)"
  shows "takeWhile P (xs @ ys) = xs" and "dropWhile P (xs @ ys) = ys"
  using assms by (induction xs) (cases ys; auto)+

lemma digit_char_val: "n < 10 \<Longrightarrow> digit_val (digit_char n) = n \<and> is_digit (digit_char n)"
proof -
  assume "n < 10"
  then have "n \<in> {0,1,2,3,4,5,6,7,8,9}" by auto
  then show ?thesis
    by (auto simp: digit_val_def digit_char_def is_digit_def)
qed

lemma digit_val_char: assumes "is_digit c" shows "digit_char (digit_val c) = c" and "digit_val c < 10"
proof -
  from assms have b: "48 \<le> (of_char c :: nat)" "(of_char c :: nat) \<le> 57"
    by (auto simp: is_digit_def less_eq_char_def)
  then have "(of_char c :: nat) \<in> {48,49,50,51,52,53,54,55,56,57}" by (simp; arith)
  moreover have e: "\<And>d. (of_char c :: nat) = of_char d \<Longrightarrow> c = d" by simp
  ultimately have "c \<in> set ''0123456789''"
    using e [of "CHR ''0''"] e [of "CHR ''1''"] e [of "CHR ''2''"] e [of "CHR ''3''"]
      e [of "CHR ''4''"] e [of "CHR ''5''"] e [of "CHR ''6''"] e [of "CHR ''7''"]
      e [of "CHR ''8''"] e [of "CHR ''9''"]
    by auto
  then show "digit_char (digit_val c) = c"
    by (auto simp: digit_val_def digit_char_def)
  show "digit_val c < 10" using b by (simp add: digit_val_def)
qed

lemma digits_val_snoc: "digits_val (s @ [c]) = 10 * digits_val s + digit_val c"
  by (simp add: digits_val_def)

lemma str_nat_digits: "\<forall>c \<in> set (str_nat n). is_digit c"
  by (induction n rule: str_nat.induct) (subst str_nat.simps, auto simp: digit_char_val)

lemma str_nat_nonempty: "str_nat n \<noteq> []"
  by (subst str_nat.simps) simp

lemma digits_val_str_nat: "digits_val (str_nat n) = n"
  by (induction n rule: str_nat.induct)
     (subst str_nat.simps, auto simp: digits_val_snoc digit_char_val, simp add: digits_val_def digit_char_val)

lemma digits_pos: "digits s \<Longrightarrow> hd s \<noteq> CHR ''0'' \<Longrightarrow> 0 < digits_val s"
proof (induction s rule: rev_induct)
  case Nil then show ?case by (simp add: digits_def)
next
  case (snoc c s)
  show ?case
  proof (cases "s = []")
    case True
    with snoc.prems have "is_digit c" "c \<noteq> CHR ''0''" by (auto simp: digits_def)
    then have "digit_char (digit_val c) = c" by (simp add: digit_val_char)
    then have "digit_val c \<noteq> 0" using \<open>c \<noteq> CHR ''0''\<close>
      by (cases "digit_val c = 0") (simp_all add: digit_char_def)
    with True show ?thesis by (simp add: digits_val_def)
  next
    case False
    with snoc have "0 < digits_val s" by (auto simp: digits_def)
    then show ?thesis by (simp add: digits_val_snoc)
  qed
qed

lemma str_nat_digits_val:
  "digits s \<Longrightarrow> no_leading_zero s \<Longrightarrow> str_nat (digits_val s) = s"
proof (induction s rule: rev_induct)
  case Nil then show ?case by (simp add: digits_def)
next
  case (snoc c s)
  from snoc.prems have c: "is_digit c" by (simp add: digits_def)
  show ?case
  proof (cases "s = []")
    case True
    then show ?thesis using c
      by (subst str_nat.simps) (simp add: digits_val_def digit_val_char)
  next
    case False
    with snoc.prems have hd: "hd s \<noteq> CHR ''0''" and d: "digits s"
      by (auto simp: no_leading_zero_def digits_def)
    then have pos: "0 < digits_val s" by (rule digits_pos [rotated])
    have "str_nat (digits_val s) = s"
      using snoc.IH d hd by (simp add: no_leading_zero_def)
    then show ?thesis using pos c
      by (subst str_nat.simps) (simp add: digits_val_snoc digit_val_char)
  qed
qed

lemma rev_dropWhile_last: "s \<noteq> [] \<Longrightarrow> \<not> P (last s) \<Longrightarrow> rev (dropWhile P (rev s)) = s"
  by (induction s rule: rev_induct) auto

lemma digit_groups_digits: "digits s \<Longrightarrow> digit_groups s"
  by (induction s rule: digit_groups.induct) (auto simp: digits_def digit_not_others)

lemma py_int_digits: assumes "digits s" shows "py_int s = Some (int (digits_val s))"
proof -
  from assms obtain c cs where s: "s = c # cs" by (cases s) (auto simp: digits_def)
  from assms have all: "\<forall>c \<in> set s. is_digit c" by (simp add: digits_def)
  then have "is_digit (hd s)" "is_digit (last s)" using s by auto
  then have "dropWhile is_int_space s = s" using s by (auto simp: digit_not_others)
  moreover have "rev (dropWhile is_int_space (rev s)) = s"
    using \<open>is_digit (last s)\<close> s by (intro rev_dropWhile_last) (auto simp: digit_not_others)
  moreover have "filter is_digit s = s" using all by (simp add: filter_id_conv)
  ultimately show ?thesis
    using s all digit_groups_digits [OF assms]
    by (simp add: py_int_def unsigned_int_def digit_not_others)
qed

lemma opt_group_suffix:
  assumes "opt_ident g" and "rest = [] \<or> \<not> is_ident (hd rest)" and "rest = [] \<or> hd rest \<noteq> x"
  shows "opt_group x (opt_suffix x g @ rest) = (g, rest)"
proof (cases g)
  case None
  then show ?thesis using assms(3) by (cases rest) (auto simp: opt_group_def)
next
  case (Some p)
  with assms(1) have p: "p \<noteq> []" "\<forall>c \<in> set p. is_ident c" by (auto simp: ident_text_def)
  from span_class [OF p(2) assms(2)] p(1) Some show ?thesis
    by (simp add: opt_group_def)
qed

lemma version_match_semver_text:
  assumes "digits ma" "digits mi" "digits pa" "opt_ident pre" "opt_ident bld"
  shows "version_match (semver_text ma mi pa pre bld) = Some (ma, mi, pa, pre, bld)"
proof -
  define t3 where "t3 = opt_suffix (CHR ''-'') pre @ opt_suffix (CHR ''+'') bld"
  define t2 where "t2 = CHR ''.'' # pa @ t3"
  define t1 where "t1 = CHR ''.'' # mi @ t2"
  have stx: "semver_text ma mi pa pre bld = ma @ t1"
    by (simp add: semver_text_def t1_def t2_def t3_def)
  have nd: "\<not> is_digit (CHR ''.'')" "\<not> is_digit (CHR ''-'')" "\<not> is_digit (CHR ''+'')"
    using digit_not_others by blast+
  have a: "\<forall>c \<in> set ma. is_digit c" "ma \<noteq> []" "\<forall>c \<in> set mi. is_digit c" "mi \<noteq> []"
    "\<forall>c \<in> set pa. is_digit c" "pa \<noteq> []"
    using assms by (auto simp: digits_def)
  have s1: "takeWhile is_digit (ma @ t1) = ma" "dropWhile is_digit (ma @ t1) = t1"
    using span_class [OF a(1), of t1] nd by (simp_all add: t1_def)
  have s2: "takeWhile is_digit (mi @ t2) = mi" "dropWhile is_digit (mi @ t2) = t2"
    using span_class [OF a(3), of t2] nd by (simp_all add: t2_def)
  have t3_hd: "t3 = [] \<or> \<not> is_digit (hd t3)"
    using nd by (cases pre; cases bld) (simp_all add: t3_def)
  have s3: "takeWhile is_digit (pa @ t3) = pa" "dropWhile is_digit (pa @ t3) = t3"
    using span_class [OF a(5) t3_hd] by simp_all
  have b_hd: "opt_suffix (CHR ''+'') bld = [] \<or> \<not> is_ident (hd (opt_suffix (CHR ''+'') bld))"
    using ident_not_plus by (cases bld) auto
  have b_hd': "opt_suffix (CHR ''+'') bld = [] \<or> hd (opt_suffix (CHR ''+'') bld) \<noteq> CHR ''-''"
    by (cases bld) auto
  have g1: "opt_group (CHR ''-'') t3 = (pre, opt_suffix (CHR ''+'') bld)"
    unfolding t3_def by (rule opt_group_suffix [OF assms(4) b_hd b_hd'])
  have g2: "opt_group (CHR ''+'') (opt_suffix (CHR ''+'') bld) = (bld, [])"
    using opt_group_suffix [OF assms(5), of "[]" "CHR ''+''"] by simp
  have h1: "t1 \<noteq> []" "hd t1 = CHR ''.''" "tl t1 = mi @ t2"
    and h2: "t2 \<noteq> []" "hd t2 = CHR ''.''" "tl t2 = pa @ t3"
    by (simp_all add: t1_def t2_def)
  show ?thesis
    unfolding stx version_match_def
    by (simp only: s1 s2 s3 h1 h2 g1 g2 a Let_def prod.case) simp
qed

lemma semver_text_hd:
  assumes "digits ma"
  shows "\<exists>c r. semver_text ma mi pa pre bld = c # r \<and> is_digit c"
  using assms by (cases ma) (auto simp: digits_def semver_text_def)

lemma strip_v_normalize:
  assumes "normalize_version V = semver_text ma mi pa pre bld" "digits ma"
  shows "dropWhile (\<lambda>c. c = CHR ''v'') V = normalize_version V"
proof -
  from semver_text_hd [OF assms(2)] obtain c r where
    cr: "semver_text ma mi pa pre bld = c # r" "is_digit c" by blast
  then have cv: "c \<noteq> CHR ''v''" using digit_not_others by blast
  show ?thesis
  proof (cases V)
    case Nil
    with assms(1) cr show ?thesis by (simp add: normalize_version_def)
  next
    case (Cons x xs)
    show ?thesis
    proof (cases "x = CHR ''v''")
      case True
      with Cons assms(1) cr have "xs = c # r" by (simp add: normalize_version_def)
      with True Cons cv show ?thesis by (simp add: normalize_version_def)
    next
      case False
      with Cons show ?thesis by (simp add: normalize_version_def)
    qed
  qed
qed

lemma Version_parse_semver_text:
  assumes "digits ma" "digits mi" "digits pa" "opt_ident pre" "opt_ident bld"
    and "normalize_version V = semver_text ma mi pa pre bld"
  shows "Version_parse V =
           Inr \<lparr>major = int (digits_val ma), minor = int (digits_val mi),
                patch = int (digits_val pa), prerelease = pre, build = bld\<rparr>"
  using strip_v_normalize [OF assms(6) assms(1)] assms(6)
    version_match_semver_text [OF assms(1-5)]
  by (simp add: Version_parse_def py_int_digits assms)

lemma truthy_opt_ident: "opt_ident g \<Longrightarrow> truthy g \<longleftrightarrow> g \<noteq> None"
  by (cases g) (auto simp: ident_text_def)

lemma to_string_parsed:
  assumes "opt_ident pre" "opt_ident bld"
  shows "to_string \<lparr>major = int a, minor = int b, patch = int c, prerelease = pre, build = bld\<rparr> =
         semver_text (str_nat a) (str_nat b) (str_nat c) pre bld"
  using assms
  by (cases pre; cases bld) (simp_all add: to_string_def str_int_def semver_text_def ident_text_def)

lemma opt_group_cases:
  "opt_group x s = (g, r) \<Longrightarrow> opt_ident g \<and> s = opt_suffix x g @ r"
proof (cases s)
  case Nil
  assume "opt_group x s = (g, r)"
  with Nil show ?thesis by (simp add: opt_group_def)
next
  case (Cons c cs)
  assume a: "opt_group x s = (g, r)"
  show ?thesis
  proof (cases "c = x \<and> takeWhile is_ident cs \<noteq> []")
    case True
    with a Cons have g: "g = Some (takeWhile is_ident cs)" and r: "r = dropWhile is_ident cs"
      by (simp_all add: opt_group_def)
    have "\<forall>c \<in> set (takeWhile is_ident cs). is_ident c" by (auto dest: set_takeWhileD)
    with True g r Cons show ?thesis by (simp add: ident_text_def)
  next
    case False
    with a Cons show ?thesis by (auto simp: opt_group_def)
  qed
qed

lemma version_match_sound:
  assumes "version_match s = Some (ma, mi, pa, pre, bld)"
  shows "digits ma \<and> digits mi \<and> digits pa \<and> opt_ident pre \<and> opt_ident bld \<and>
         (s = semver_text ma mi pa pre bld \<or> s = semver_text ma mi pa pre bld @ [NL])"
proof -
  define r1 where "r1 = dropWhile is_digit s"
  define r2 where "r2 = dropWhile is_digit (tl r1)"
  define r3 where "r3 = dropWhile is_digit (tl r2)"
  define a1 where "a1 = takeWhile is_digit s"
  define a2 where "a2 = takeWhile is_digit (tl r1)"
  define a3 where "a3 = takeWhile is_digit (tl r2)"
  define C1 where "C1 \<longleftrightarrow> a1 = [] \<or> r1 = [] \<or> hd r1 \<noteq> CHR ''.''"
  define C2 where "C2 \<longleftrightarrow> a2 = [] \<or> r2 = [] \<or> hd r2 \<noteq> CHR ''.''"
  define C3 where "C3 \<longleftrightarrow> a3 = []"
  obtain g1 r4 where g1: "opt_group (CHR ''-'') r3 = (g1, r4)" by (cases "opt_group (CHR ''-'') r3")
  obtain g2 r5 where g2: "opt_group (CHR ''+'') r4 = (g2, r5)" by (cases "opt_group (CHR ''+'') r4")
  have u: "version_match s =
      (if C1 then None else if C2 then None else if C3 then None
       else if r5 = [] \<or> r5 = [NL] then Some (a1, a2, a3, g1, g2) else None)"
    unfolding version_match_def C1_def C2_def C3_def a1_def a2_def a3_def
    by (simp only: Let_def r1_def [symmetric] r2_def [symmetric] r3_def [symmetric] g1 g2 prod.case)
  have n1: "\<not> C1" using assms unfolding u by (cases C1) simp_all
  have n2: "\<not> C2" using assms n1 unfolding u by (cases C2) simp_all
  have n3: "\<not> C3" using assms n1 n2 unfolding u by (cases C3) simp_all
  have e5: "r5 = [] \<or> r5 = [NL]"
    using assms n1 n2 n3 unfolding u by (cases "r5 = [] \<or> r5 = [NL]") simp_all
  have res: "ma = a1" "mi = a2" "pa = a3" "pre = g1" "bld = g2"
    using assms n1 n2 n3 e5 unfolding u by simp_all
  have "\<forall>c \<in> set a1. is_digit c" "\<forall>c \<in> set a2. is_digit c" "\<forall>c \<in> set a3. is_digit c"
    unfolding a1_def a2_def a3_def by (auto dest: set_takeWhileD)
  then have d: "digits ma" "digits mi" "digits pa"
    using n1 n2 n3 unfolding res digits_def C1_def C2_def C3_def by simp_all
  from opt_group_cases [OF g1] have o1: "opt_ident g1" "r3 = opt_suffix (CHR ''-'') g1 @ r4" by simp_all
  from opt_group_cases [OF g2] have o2: "opt_ident g2" "r4 = opt_suffix (CHR ''+'') g2 @ r5" by simp_all
  have "s = a1 @ r1" by (simp add: a1_def r1_def)
  moreover have "r1 = CHR ''.'' # a2 @ r2"
    using n1 unfolding C1_def by (cases r1) (simp_all add: a2_def r2_def)
  moreover have "r2 = CHR ''.'' # a3 @ r3"
    using n2 unfolding C2_def by (cases r2) (simp_all add: a3_def r3_def)
  ultimately have "s = a1 @ CHR ''.'' # a2 @ CHR ''.'' # a3 @ opt_suffix (CHR ''-'') g1 @
      opt_suffix (CHR ''+'') g2 @ r5"
    using o1(2) o2(2) by simp
  then have "s = semver_text ma mi pa pre bld @ r5"
    by (simp add: semver_text_def res)
  with e5 d o1(1) o2(1) res(4,5) show ?thesis by auto
qed

lemma last_normalize_version:
  "normalize_version V \<noteq> [] \<Longrightarrow> last (normalize_version V) = last V"
  by (cases V) (auto simp: normalize_version_def)

text \<open>
  C4, amended. For every text \<open>V\<close> that, after one optional leading \<^verbatim>\<open>v\<close> is stripped,
  matches the pattern of \<open>Version.parse\<close>, does not end in a newline (the \<^verbatim>\<open>$\<close> of the
  pattern also accepts one final newline, which the parse drops) and writes its three
  numbers without superfluous leading zeros, \<open>Version.parse\<close> succeeds, keeps the
  prerelease and the build as they are written, and formatting the result gives
  \<open>normalize_version V\<close> back. Texts are over the code points below 256, where the digits
  of the pattern are the ASCII digits, and the numbers are short enough for the
  interpreter's limit on integer conversion, which is not modelled.
\<close>

theorem version_roundtrip:
  assumes "version_match (normalize_version V) = Some (ma, mi, pa, pre, bld)"
    and "last V \<noteq> NL"
    and "no_leading_zero ma" "no_leading_zero mi" "no_leading_zero pa"
  shows "\<exists>v. Version_parse V = Inr v \<and> prerelease v = pre \<and> build v = bld \<and>
             to_string v = normalize_version V"
proof -
  from version_match_sound [OF assms(1)]
  have d: "digits ma" "digits mi" "digits pa" "opt_ident pre" "opt_ident bld"
    and t: "normalize_version V = semver_text ma mi pa pre bld \<or>
            normalize_version V = semver_text ma mi pa pre bld @ [NL]"
    by simp_all
  have "normalize_version V \<noteq> []"
    using t d(1) by (auto simp: semver_text_def digits_def)
  then have "last (normalize_version V) \<noteq> NL"
    using assms(2) by (simp add: last_normalize_version)
  with t have e: "normalize_version V = semver_text ma mi pa pre bld" by auto
  from Version_parse_semver_text [OF d e] d assms(3-5) e show ?thesis
    by (simp add: to_string_parsed str_nat_digits_val)
qed

theorem version_roundtrip_witness:
  "\<exists>v. Version_parse ''v1.20.3-dev.4+build.123'' = Inr v \<and> prerelease v = Some ''dev.4'' \<and>
       build v = Some ''build.123'' \<and> to_string v = ''1.20.3-dev.4+build.123''"
proof -
  have m: "version_match (normalize_version ''v1.20.3-dev.4+build.123'') =
             Some (''1'', ''20'', ''3'', Some ''dev.4'', Some ''build.123'')"
    by code_simp
  have l: "last ''v1.20.3-dev.4+build.123'' \<noteq> NL" by code_simp
  have z: "no_leading_zero ''1''" "no_leading_zero ''20''" "no_leading_zero ''3''"
    by code_simp+
  have n: "normalize_version ''v1.20.3-dev.4+build.123'' = ''1.20.3-dev.4+build.123''" by code_simp
  show ?thesis using version_roundtrip [OF m l z] unfolding n .
qed

text \<open>
  C4 as stated fails on a number with a leading zero and on a final newline:
  \<^verbatim>\<open>01.2.3\<close> matches the pattern, parses to the numbers 1, 2, 3 and formats as
  \<^verbatim>\<open>1.2.3\<close>; \<^verbatim>\<open>1.2.3-rc.1\<close> followed by a newline matches the pattern and formats without
  the newline.
\<close>

theorem roundtrip_fails_zero_or_newline:
  "version_match (normalize_version ''01.2.3'') = Some (''01'', ''2'', ''3'', None, None) \<and>
   Version_parse ''01.2.3'' =
     Inr \<lparr>major = 1, minor = 2, patch = 3, prerelease = None, build = None\<rparr> \<and>
   to_string \<lparr>major = 1, minor = 2, patch = 3, prerelease = None, build = None\<rparr> = ''1.2.3'' \<and>
   ''1.2.3'' \<noteq> normalize_version ''01.2.3'' \<and>
   version_match (normalize_version (''1.2.3-rc.1'' @ [NL])) =
     Some (''1'', ''2'', ''3'', Some ''rc.1'', None) \<and>
   Version_parse (''1.2.3-rc.1'' @ [NL]) =
     Inr \<lparr>major = 1, minor = 2, patch = 3, prerelease = Some ''rc.1'', build = None\<rparr> \<and>
   to_string \<lparr>major = 1, minor = 2, patch = 3, prerelease = Some ''rc.1'', build = None\<rparr> =
     ''1.2.3-rc.1'' \<and>
   ''1.2.3-rc.1'' \<noteq> normalize_version (''1.2.3-rc.1'' @ [NL])"
  by code_simp

section \<open>Breaking-change detection\<close>

lemma py_split_nonempty: "py_split sep s \<noteq> []"
  by (induction s) (auto split: list.split)

lemma hd_py_split: "hd (py_split sep s) = takeWhile (\<lambda>c. c \<noteq> sep) s"
  by (induction s) (auto split: list.split simp: py_split_nonempty)

lemma search_iff: "search p s \<longleftrightarrow> (\<exists>pre t. s = pre @ t \<and> p t)"
proof (induction s)
  case Nil then show ?case by simp
next
  case (Cons c cs)
  show ?case
  proof
    assume "search p (c # cs)"
    then consider "p (c # cs)" | "search p cs" by auto
    then show "\<exists>pre t. c # cs = pre @ t \<and> p t"
    proof cases
      case 1 then show ?thesis by (metis append_Nil)
    next
      case 2
      with Cons obtain pre t where "cs = pre @ t" "p t" by blast
      then show ?thesis by (metis append_Cons)
    qed
  next
    assume "\<exists>pre t. c # cs = pre @ t \<and> p t"
    then obtain pre t where e: "c # cs = pre @ t" "p t" by blast
    show "search p (c # cs)"
    proof (cases pre)
      case Nil with e have "p (c # cs)" by simp
      then show ?thesis by simp
    next
      case (Cons x xs)
      with e have "cs = xs @ t" by simp
      with e(2) Cons.IH show ?thesis by auto
    qed
  qed
qed

lemma search_after_newline_iff:
  "search_after_newline p s \<longleftrightarrow> (\<exists>pre t. s = pre @ NL # t \<and> p t)"
proof (induction s)
  case Nil then show ?case by simp
next
  case (Cons c cs)
  show ?case
  proof
    assume "search_after_newline p (c # cs)"
    then consider "c = NL \<and> p cs" | "search_after_newline p cs" by auto
    then show "\<exists>pre t. c # cs = pre @ NL # t \<and> p t"
    proof cases
      case 1 then show ?thesis by (metis append_Nil)
    next
      case 2
      with Cons obtain pre t where "cs = pre @ NL # t" "p t" by blast
      then show ?thesis by (metis append_Cons)
    qed
  next
    assume "\<exists>pre t. c # cs = pre @ NL # t \<and> p t"
    then obtain pre t where e: "c # cs = pre @ NL # t" "p t" by blast
    show "search_after_newline p (c # cs)"
    proof (cases pre)
      case Nil with e show ?thesis by simp
    next
      case (Cons x xs)
      with e have "cs = xs @ NL # t" by simp
      with e(2) Cons.IH show ?thesis by auto
    qed
  qed
qed

lemma search_line_start_iff:
  "search_line_start p s \<longleftrightarrow> (\<exists>pre t. s = pre @ t \<and> (pre = [] \<or> last pre = NL) \<and> p t)"
proof
  assume "search_line_start p s"
  then consider "p s" | "search_after_newline p s" by (auto simp: search_line_start_def)
  then show "\<exists>pre t. s = pre @ t \<and> (pre = [] \<or> last pre = NL) \<and> p t"
  proof cases
    case 1 then show ?thesis by (metis append_Nil)
  next
    case 2
    then obtain pre t where "s = pre @ NL # t" "p t" by (auto simp: search_after_newline_iff)
    then show ?thesis by (intro exI [of _ "pre @ [NL]"] exI [of _ t] conjI) simp_all
  qed
next
  assume "\<exists>pre t. s = pre @ t \<and> (pre = [] \<or> last pre = NL) \<and> p t"
  then obtain pre t where e: "s = pre @ t" "pre = [] \<or> last pre = NL" "p t" by blast
  show "search_line_start p s"
  proof (cases "pre = []")
    case True with e show ?thesis by (simp add: search_line_start_def)
  next
    case False
    with e(2) have "pre = butlast pre @ [NL]" by (metis append_butlast_last_id)
    with e(1) have "s = butlast pre @ NL # t" by (metis append.assoc append_Cons append_Nil)
    with e(3) show ?thesis by (auto simp: search_line_start_def search_after_newline_iff)
  qed
qed

lemma is_space_NL: "is_space NL"
  by (simp add: is_space_def NL_def)

lemma ws_then_text_iff: "ws_then_text r \<longleftrightarrow> has_text r"
proof -
  have r: "r = takeWhile is_space r @ dropWhile is_space r" by simp
  show ?thesis
  proof (cases "dropWhile is_space r = []")
    case True
    then have "takeWhile is_space r = r" by (metis r append_Nil2)
    then have "(\<exists>c \<in> set (takeWhile is_space r). c \<noteq> NL) \<longleftrightarrow> has_text r"
      unfolding has_text_def by (simp only:)
    with True show ?thesis by (simp only: ws_then_text_def) simp
  next
    case False
    then have "\<not> is_space (hd (dropWhile is_space r))" by (rule hd_dropWhile)
    moreover have "hd (dropWhile is_space r) \<in> set r"
      using False by (metis hd_in_set set_dropWhileD)
    moreover from calculation(1) have "hd (dropWhile is_space r) \<noteq> NL"
      using is_space_NL by metis
    ultimately have "has_text r" unfolding has_text_def by blast
    with False show ?thesis by (simp add: ws_then_text_def)
  qed
qed

lemma to_lower_upper: "is_upper c \<Longrightarrow> (of_char (to_lower c) :: nat) = of_char c + 32"
  by (auto simp: to_lower_def is_upper_def less_eq_char_def)

lemma to_lower_separator:
  "to_lower c = CHR '' '' \<longleftrightarrow> c = CHR '' ''" "to_lower c = CHR ''-'' \<longleftrightarrow> c = CHR ''-''"
proof -
  have u: "is_upper c \<Longrightarrow> (97::nat) \<le> of_char (to_lower c)"
    using to_lower_upper [of c] by (auto simp: is_upper_def less_eq_char_def)
  have n: "\<not> is_upper (CHR '' '')" "\<not> is_upper (CHR ''-'')" by (simp_all add: is_upper_def)
  show "to_lower c = CHR '' '' \<longleftrightarrow> c = CHR '' ''"
  proof (cases "is_upper c")
    case True
    with u have "to_lower c \<noteq> CHR '' ''" by auto
    with True n show ?thesis by auto
  next
    case False then show ?thesis by (simp add: to_lower_def)
  qed
  show "to_lower c = CHR ''-'' \<longleftrightarrow> c = CHR ''-''"
  proof (cases "is_upper c")
    case True
    with u have "to_lower c \<noteq> CHR ''-''" by auto
    with True n show ?thesis by auto
  next
    case False then show ?thesis by (simp add: to_lower_def)
  qed
qed

lemma strip_prefix_ci_iff:
  "strip_prefix_ci lit s = Some r \<longleftrightarrow> (\<exists>kw. s = kw @ r \<and> py_lower kw = py_lower lit)"
proof (induction lit s rule: strip_prefix_ci.induct)
  case (1 s)
  then show ?case by (simp add: py_lower_def)
next
  case (2 l ls)
  then show ?case by (simp add: py_lower_def)
next
  case (3 l ls c cs)
  show ?case
  proof (cases "to_lower c = to_lower l")
    case True
    have "(\<exists>kw. c # cs = kw @ r \<and> py_lower kw = py_lower (l # ls)) \<longleftrightarrow>
          (\<exists>kw'. cs = kw' @ r \<and> py_lower kw' = py_lower ls)"
    proof
      assume "\<exists>kw. c # cs = kw @ r \<and> py_lower kw = py_lower (l # ls)"
      then obtain kw where k: "c # cs = kw @ r" "py_lower kw = py_lower (l # ls)" by blast
      then obtain kw' where "kw = c # kw'" by (cases kw) (auto simp: py_lower_def)
      with k show "\<exists>kw'. cs = kw' @ r \<and> py_lower kw' = py_lower ls"
        by (auto simp: py_lower_def)
    next
      assume "\<exists>kw'. cs = kw' @ r \<and> py_lower kw' = py_lower ls"
      then obtain kw' where "cs = kw' @ r" "py_lower kw' = py_lower ls" by blast
      with True show "\<exists>kw. c # cs = kw @ r \<and> py_lower kw = py_lower (l # ls)"
        by (intro exI [of _ "c # kw'"]) (simp add: py_lower_def)
    qed
    with True 3 show ?thesis by simp
  next
    case False
    have "\<not> (\<exists>kw. c # cs = kw @ r \<and> py_lower kw = py_lower (l # ls))"
    proof
      assume "\<exists>kw. c # cs = kw @ r \<and> py_lower kw = py_lower (l # ls)"
      then obtain kw where k: "c # cs = kw @ r" "py_lower kw = py_lower (l # ls)" by blast
      then obtain kw' where "kw = c # kw'" by (cases kw) (auto simp: py_lower_def)
      with k False show False by (simp add: py_lower_def)
    qed
    with False show ?thesis by simp
  qed
qed

lemma py_lower_append: "py_lower (a @ b) = py_lower a @ py_lower b"
  by (simp add: py_lower_def)

lemma keyword_split:
  assumes "sep = CHR '' '' \<or> sep = CHR ''-''"
  shows "py_lower kw = py_lower (''BREAKING'' @ sep # ''CHANGE:'') \<longleftrightarrow>
         (\<exists>k1 k2. kw = k1 @ sep # k2 \<and> py_lower k1 = py_lower ''BREAKING'' \<and>
                  py_lower k2 = py_lower ''CHANGE:'')"
proof
  assume a: "py_lower kw = py_lower (''BREAKING'' @ sep # ''CHANGE:'')"
  have "length (py_lower kw) = 16" by (simp only: a) (simp add: py_lower_def)
  then have len: "length kw = 16" by (simp add: py_lower_def)
  have kw: "kw = take 8 kw @ (kw ! 8) # drop 9 kw"
    using len by (metis Cons_nth_drop_Suc append_take_drop_id eval_nat_numeral(3) numeral_less_iff semiring_norm(76) semiring_norm(78) Suc_numeral semiring_norm(5) semiring_norm(2) semiring_norm(8))
  have "py_lower (take 8 kw) = take 8 (py_lower kw)" by (simp add: py_lower_def take_map)
  with a have k1: "py_lower (take 8 kw) = py_lower ''BREAKING''" by (simp add: py_lower_def)
  have "py_lower (drop 9 kw) = drop 9 (py_lower kw)" by (simp add: py_lower_def drop_map)
  with a have k2: "py_lower (drop 9 kw) = py_lower ''CHANGE:''" by (simp add: py_lower_def)
  have "to_lower (kw ! 8) = py_lower kw ! 8" using len by (simp add: py_lower_def)
  with a have "to_lower (kw ! 8) = to_lower sep" by (simp add: py_lower_def)
  with assms have "kw ! 8 = sep"
    using to_lower_separator [of "kw ! 8"] to_lower_separator [of sep] by auto
  with kw k1 k2 show "\<exists>k1 k2. kw = k1 @ sep # k2 \<and> py_lower k1 = py_lower ''BREAKING'' \<and>
                  py_lower k2 = py_lower ''CHANGE:''" by metis
next
  assume "\<exists>k1 k2. kw = k1 @ sep # k2 \<and> py_lower k1 = py_lower ''BREAKING'' \<and>
                  py_lower k2 = py_lower ''CHANGE:''"
  then show "py_lower kw = py_lower (''BREAKING'' @ sep # ''CHANGE:'')"
    by (auto simp: py_lower_def)
qed

lemma breaking_footer_at_sep:
  "breaking_footer_at t \<longleftrightarrow>
     (\<exists>k1 sep k2 rest. t = k1 @ sep # k2 @ rest \<and> py_lower k1 = py_lower ''BREAKING'' \<and>
        (sep = CHR ''-'' \<or> sep = CHR '' '') \<and> py_lower k2 = py_lower ''CHANGE:'' \<and> has_text rest)"
proof
  assume "breaking_footer_at t"
  then obtain r1 where r1: "strip_prefix_ci ''BREAKING'' t = Some r1"
    by (auto simp: breaking_footer_at_def split: option.splits)
  with \<open>breaking_footer_at t\<close> obtain c r2 where r2: "r1 = c # r2" "c = CHR ''-'' \<or> c = CHR '' ''"
    by (auto simp: breaking_footer_at_def split: option.splits list.splits)
  with r1 \<open>breaking_footer_at t\<close> obtain r3 where
    r3: "strip_prefix_ci ''CHANGE:'' r2 = Some r3" "ws_then_text r3"
    by (auto simp: breaking_footer_at_def split: option.splits list.splits)
  from r1 obtain k1 where k1: "t = k1 @ r1" "py_lower k1 = py_lower ''BREAKING''"
    unfolding strip_prefix_ci_iff by blast
  from r3(1) obtain k2 where k2: "r2 = k2 @ r3" "py_lower k2 = py_lower ''CHANGE:''"
    unfolding strip_prefix_ci_iff by blast
  from k1 k2 r2 r3(2) show "\<exists>k1 sep k2 rest. t = k1 @ sep # k2 @ rest \<and>
      py_lower k1 = py_lower ''BREAKING'' \<and> (sep = CHR ''-'' \<or> sep = CHR '' '') \<and>
      py_lower k2 = py_lower ''CHANGE:'' \<and> has_text rest"
    unfolding ws_then_text_iff by blast
next
  assume "\<exists>k1 sep k2 rest. t = k1 @ sep # k2 @ rest \<and> py_lower k1 = py_lower ''BREAKING'' \<and>
        (sep = CHR ''-'' \<or> sep = CHR '' '') \<and> py_lower k2 = py_lower ''CHANGE:'' \<and> has_text rest"
  then obtain k1 sep k2 rest where
    d: "t = k1 @ sep # k2 @ rest" "py_lower k1 = py_lower ''BREAKING''"
      "sep = CHR ''-'' \<or> sep = CHR '' ''" "py_lower k2 = py_lower ''CHANGE:''" "has_text rest"
    by blast
  have 1: "strip_prefix_ci ''BREAKING'' t = Some (sep # k2 @ rest)"
    unfolding strip_prefix_ci_iff using d(1,2) by blast
  have 2: "strip_prefix_ci ''CHANGE:'' (k2 @ rest) = Some rest"
    unfolding strip_prefix_ci_iff using d(4) by blast
  show "breaking_footer_at t"
    using d(3,5) by (simp add: breaking_footer_at_def 1 2 ws_then_text_iff)
qed

lemma breaking_footer_at_iff:
  "breaking_footer_at t \<longleftrightarrow>
     (\<exists>kw rest. t = kw @ rest \<and>
        (ci_equal kw ''BREAKING CHANGE:'' \<or> ci_equal kw ''BREAKING-CHANGE:'') \<and> has_text rest)"
proof -
  have sp: "ci_equal kw ''BREAKING CHANGE:'' \<longleftrightarrow>
        (\<exists>k1 k2. kw = k1 @ CHR '' '' # k2 \<and> py_lower k1 = py_lower ''BREAKING'' \<and>
                  py_lower k2 = py_lower ''CHANGE:'')" for kw
    using keyword_split [of "CHR '' ''" kw] by (simp add: ci_equal_def)
  have hy: "ci_equal kw ''BREAKING-CHANGE:'' \<longleftrightarrow>
        (\<exists>k1 k2. kw = k1 @ CHR ''-'' # k2 \<and> py_lower k1 = py_lower ''BREAKING'' \<and>
                  py_lower k2 = py_lower ''CHANGE:'')" for kw
    using keyword_split [of "CHR ''-''" kw] by (simp add: ci_equal_def)
  show ?thesis
  proof
    assume "breaking_footer_at t"
    then obtain k1 sep k2 rest where
      d: "t = k1 @ sep # k2 @ rest" "py_lower k1 = py_lower ''BREAKING''"
        "sep = CHR ''-'' \<or> sep = CHR '' ''" "py_lower k2 = py_lower ''CHANGE:''" "has_text rest"
      unfolding breaking_footer_at_sep by blast
    from d(2,3,4) have "ci_equal (k1 @ sep # k2) ''BREAKING CHANGE:'' \<or>
        ci_equal (k1 @ sep # k2) ''BREAKING-CHANGE:''"
      unfolding sp hy by blast
    moreover have "t = (k1 @ sep # k2) @ rest" using d(1) by simp
    ultimately show "\<exists>kw rest. t = kw @ rest \<and>
        (ci_equal kw ''BREAKING CHANGE:'' \<or> ci_equal kw ''BREAKING-CHANGE:'') \<and> has_text rest"
      using d(5) by blast
  next
    assume "\<exists>kw rest. t = kw @ rest \<and>
        (ci_equal kw ''BREAKING CHANGE:'' \<or> ci_equal kw ''BREAKING-CHANGE:'') \<and> has_text rest"
    then obtain kw rest where
      d: "t = kw @ rest" "ci_equal kw ''BREAKING CHANGE:'' \<or> ci_equal kw ''BREAKING-CHANGE:''"
        "has_text rest" by blast
    from d(2) obtain k1 sep k2 where
      "kw = k1 @ sep # k2" "py_lower k1 = py_lower ''BREAKING''"
      "sep = CHR ''-'' \<or> sep = CHR '' ''" "py_lower k2 = py_lower ''CHANGE:''"
      unfolding sp hy by blast
    with d(1,3) show "breaking_footer_at t"
      unfolding breaking_footer_at_sep by auto
  qed
qed

lemma not_word_punct: "\<not> is_word (CHR ''('')" "\<not> is_word (CHR ''!'')"
  by (simp_all add: is_word_def is_digit_def)

lemma scope_group_cases:
  "scope_group s = (sc, r) \<Longrightarrow>
     (sc = None \<and> r = s) \<or>
     (\<exists>inner. sc = Some inner \<and> inner \<noteq> [] \<and> CHR '')'' \<notin> set inner \<and>
              s = CHR ''('' # inner @ CHR '')'' # r)"
proof (cases s)
  case Nil
  assume "scope_group s = (sc, r)"
  with Nil show ?thesis by (simp add: scope_group_def)
next
  case (Cons c cs)
  assume a: "scope_group s = (sc, r)"
  let ?P = "\<lambda>x. x \<noteq> CHR '')''"
  show ?thesis
  proof (cases "c = CHR ''('' \<and> takeWhile ?P cs \<noteq> [] \<and> dropWhile ?P cs \<noteq> []")
    case True
    with a Cons have sc: "sc = Some (takeWhile ?P cs)" and r: "r = tl (dropWhile ?P cs)"
      by (simp_all add: scope_group_def)
    from True have "hd (dropWhile ?P cs) = CHR '')''"
      using hd_dropWhile [of ?P cs] by auto
    with True have "dropWhile ?P cs = CHR '')'' # r" using r by (cases "dropWhile ?P cs") auto
    then have "cs = takeWhile ?P cs @ CHR '')'' # r"
      by (metis takeWhile_dropWhile_id)
    moreover have "CHR '')'' \<notin> set (takeWhile ?P cs)"
      by (auto dest: set_takeWhileD)
    ultimately show ?thesis using True sc Cons by auto
  next
    case False
    with a Cons show ?thesis by (auto simp: scope_group_def)
  qed
qed

lemma scope_group_scope:
  assumes "inner \<noteq> []" "CHR '')'' \<notin> set inner"
  shows "scope_group (CHR ''('' # inner @ CHR '')'' # r) = (Some inner, r)"
proof -
  have "\<forall>c \<in> set inner. c \<noteq> CHR '')''" using assms(2) by auto
  from span_class [where P = "\<lambda>x. x \<noteq> CHR '')''", OF this, of "CHR '')'' # r"] assms(1)
  show ?thesis by (simp add: scope_group_def)
qed

lemma bang_header_at_iff:
  "bang_header_at t \<longleftrightarrow>
     (\<exists>ty sc rest. t = ty @ sc @ ''!:'' @ rest \<and> ty \<noteq> [] \<and> (\<forall>c \<in> set ty. is_word c) \<and>
        scope_text sc \<and> has_text rest)"
proof
  assume b: "bang_header_at t"
  define ty where "ty = takeWhile is_word t"
  obtain sc r1 where g: "scope_group (dropWhile is_word t) = (sc, r1)" by (cases "scope_group (dropWhile is_word t)")
  from b g have ty: "ty \<noteq> []" by (simp add: bang_header_at_def ty_def)
  from b g obtain r2 where r1: "r1 = CHR ''!'' # CHR '':'' # r2" "ws_then_text r2"
    by (auto simp: bang_header_at_def split: list.splits)
  have t: "t = ty @ dropWhile is_word t" by (simp add: ty_def)
  have w: "\<forall>c \<in> set ty. is_word c" unfolding ty_def by (meson set_takeWhileD)
  from scope_group_cases [OF g] show "\<exists>ty sc rest. t = ty @ sc @ ''!:'' @ rest \<and> ty \<noteq> [] \<and>
      (\<forall>c \<in> set ty. is_word c) \<and> scope_text sc \<and> has_text rest"
  proof
    assume "sc = None \<and> r1 = dropWhile is_word t"
    with t r1 have "t = ty @ [] @ ''!:'' @ r2" by simp
    with ty w r1(2) show ?thesis unfolding ws_then_text_iff scope_text_def by blast
  next
    assume "\<exists>inner. sc = Some inner \<and> inner \<noteq> [] \<and> CHR '')'' \<notin> set inner \<and>
              dropWhile is_word t = CHR ''('' # inner @ CHR '')'' # r1"
    then obtain inner where i: "inner \<noteq> []" "CHR '')'' \<notin> set inner"
      "dropWhile is_word t = CHR ''('' # inner @ CHR '')'' # r1" by blast
    with t r1 have "t = ty @ (CHR ''('' # inner @ '')'') @ ''!:'' @ r2" by simp
    moreover have "scope_text (CHR ''('' # inner @ '')'')" using i by (auto simp: scope_text_def)
    ultimately show ?thesis using ty w r1(2) unfolding ws_then_text_iff by blast
  qed
next
  assume "\<exists>ty sc rest. t = ty @ sc @ ''!:'' @ rest \<and> ty \<noteq> [] \<and> (\<forall>c \<in> set ty. is_word c) \<and>
        scope_text sc \<and> has_text rest"
  then obtain ty sc rest where
    d: "t = ty @ sc @ ''!:'' @ rest" "ty \<noteq> []" "\<forall>c \<in> set ty. is_word c" "scope_text sc"
      "has_text rest" by blast
  define rest' where "rest' = CHR ''!'' # CHR '':'' # rest"
  have t: "t = ty @ sc @ rest'" using d(1) by (simp add: rest'_def)
  have nw: "sc @ rest' = [] \<or> \<not> is_word (hd (sc @ rest'))"
    using d(4) not_word_punct by (auto simp: scope_text_def rest'_def)
  from span_class [OF d(3) nw] t
  have s: "takeWhile is_word t = ty" "dropWhile is_word t = sc @ rest'" by simp_all
  have "\<exists>g. scope_group (sc @ rest') = (g, rest')"
  proof (cases "sc = []")
    case True then show ?thesis by (simp add: scope_group_def rest'_def)
  next
    case False
    with d(4) obtain inner where "inner \<noteq> []" "CHR '')'' \<notin> set inner" "sc = CHR ''('' # inner @ '')''"
      by (auto simp: scope_text_def)
    then show ?thesis using scope_group_scope [of inner rest'] by simp
  qed
  then obtain g where g: "scope_group (sc @ rest') = (g, rest')" by blast
  have "ws_then_text rest" using d(5) by (simp add: ws_then_text_iff)
  then show "bang_header_at t"
    using d(2) unfolding bang_header_at_def s g by (simp add: rest'_def)
qed

lemma is_breaking_iff:
  "is_breaking header body \<longleftrightarrow> bang_before_colon header \<or> footer_anywhere body \<or> bang_line body"
proof -
  have f: "search breaking_footer_at body \<longleftrightarrow> footer_anywhere body"
    unfolding search_iff breaking_footer_at_iff footer_anywhere_def by auto
  have b: "search_line_start bang_header_at body \<longleftrightarrow> bang_line body"
    unfolding search_line_start_iff bang_header_at_iff bang_line_def by blast
  show ?thesis
    by (simp add: is_breaking_def BREAKING_PATTERNS_def hd_py_split bang_before_colon_def f b)
qed

lemma parser_parse_Some:
  "parser_parse cfg msg sha = Some pc \<longleftrightarrow>
     (\<exists>ty sc subj. COMMIT_PATTERN_match (message_header msg) = Some (ty, sc, subj) \<and>
        pc = \<lparr>pc_sha = sha, pc_type = py_lower ty, pc_scope = sc, pc_subject = py_strip subj,
              pc_body = message_body msg,
              pc_breaking = is_breaking (message_header msg) (message_body msg),
              pc_bump = determine_bump cfg (py_lower ty)
                          (is_breaking (message_header msg) (message_body msg))\<rparr>)"
  by (auto simp: parser_parse_def message_header_def message_body_def py_split_nonempty Let_def
      split: option.splits)

text \<open>
  C3, amended. For every commit message whose header matches the grammar, \<open>parse\<close> sets
  breaking exactly when (1) an exclamation mark stands in the header before the first
  colon, or (2) the body holds, at any position and not only at the start of a line, the
  text \<^verbatim>\<open>BREAKING CHANGE:\<close> or \<^verbatim>\<open>BREAKING-CHANGE:\<close> in any case, followed by some character
  other than a newline, or (3) a line of the body starts with \<^verbatim>\<open>type!:\<close> or
  \<^verbatim>\<open>type(scope)!:\<close>, again followed by some character other than a newline.
\<close>

theorem breaking_characterised:
  assumes "parser_parse cfg msg sha = Some pc"
  shows "pc_breaking pc \<longleftrightarrow>
           bang_before_colon (message_header msg) \<or> footer_anywhere (pc_body pc) \<or>
           bang_line (pc_body pc)"
  using assms unfolding parser_parse_Some by (auto simp: is_breaking_iff)

theorem breaking_characterised_witness:
  "bang_before_colon (message_header unanchored_footer_message) \<or>
   footer_anywhere ''not a breaking change: x'' \<or> bang_line ''not a breaking change: x''"
proof -
  have p: "parser_parse DEFAULT_CONFIG unanchored_footer_message [] =
      Some \<lparr>pc_sha = [], pc_type = ''fix'', pc_scope = None, pc_subject = ''a'',
            pc_body = ''not a breaking change: x'', pc_breaking = True, pc_bump = MAJOR\<rparr>"
    unfolding unanchored_footer_message_def by code_simp
  from breaking_characterised [OF p] show ?thesis by simp
qed

text \<open>
  C3 as stated fails: the body \<^verbatim>\<open>not a breaking change: x\<close> has no line that begins with
  the footer and the header has no exclamation mark, yet the commit is breaking.
\<close>

theorem breaking_footer_not_anchored:
  "parser_parse DEFAULT_CONFIG unanchored_footer_message [] =
      Some \<lparr>pc_sha = [], pc_type = ''fix'', pc_scope = None, pc_subject = ''a'',
            pc_body = ''not a breaking change: x'', pc_breaking = True, pc_bump = MAJOR\<rparr> \<and>
   \<not> bang_before_colon (message_header unanchored_footer_message) \<and>
   \<not> footer_at_line_start ''not a breaking change: x''"
  unfolding unanchored_footer_message_def by code_simp

text \<open>
  C9, amended. With the default configuration, for every commit message whose header
  type is \<^verbatim>\<open>breaking\<close> and that has no exclamation marker (neither an exclamation mark in
  the header before the first colon nor a line of the body that starts with \<^verbatim>\<open>type!:\<close> or
  \<^verbatim>\<open>type(scope)!:\<close> and text) and nowhere in its body, at a line start or inside a line,
  the text \<^verbatim>\<open>BREAKING CHANGE:\<close> or \<^verbatim>\<open>BREAKING-CHANGE:\<close> in any case followed by some
  character other than a newline, \<open>parse\<close> returns a commit with breaking false and bump
  MAJOR: \<^verbatim>\<open>breaking\<close> is a configured type of major severity.
\<close>

theorem breaking_type_is_major:
  assumes "COMMIT_PATTERN_match (message_header msg) = Some (ty, sc, subj)"
    and "py_lower ty = ''breaking''"
    and "\<not> bang_before_colon (message_header msg)"
    and "\<not> bang_line (message_body msg)"
    and "\<not> footer_anywhere (message_body msg)"
  shows "\<exists>pc. parser_parse DEFAULT_CONFIG msg sha = Some pc \<and> pc_type pc = ''breaking'' \<and>
              \<not> pc_breaking pc \<and> pc_bump pc = MAJOR"
proof -
  have nb: "\<not> is_breaking (message_header msg) (message_body msg)"
    using assms(3-5) by (simp add: is_breaking_iff)
  have "determine_bump DEFAULT_CONFIG ''breaking'' False = MAJOR" by code_simp
  with nb assms(1,2) show ?thesis
    unfolding parser_parse_Some by simp
qed

theorem breaking_type_is_major_witness:
  "\<exists>pc. parser_parse DEFAULT_CONFIG breaking_type_message ''c3'' = Some pc \<and>
        pc_type pc = ''breaking'' \<and> \<not> pc_breaking pc \<and> pc_bump pc = MAJOR"
proof -
  have m: "COMMIT_PATTERN_match (message_header breaking_type_message) =
             Some (''breaking'', None, ''remove old api'')"
    unfolding breaking_type_message_def by code_simp
  have l: "py_lower ''breaking'' = ''breaking''" by code_simp
  have "\<not> is_breaking (message_header breaking_type_message) (message_body breaking_type_message)"
    unfolding breaking_type_message_def by code_simp
  then have n: "\<not> bang_before_colon (message_header breaking_type_message)"
    "\<not> bang_line (message_body breaking_type_message)"
    "\<not> footer_anywhere (message_body breaking_type_message)"
    by (simp_all add: is_breaking_iff)
  show ?thesis by (rule breaking_type_is_major [OF m l n])
qed

text \<open>
  C9 as stated fails: the message below has the type \<^verbatim>\<open>breaking\<close>, no exclamation mark
  at all and no line that begins with the footer, yet the words
  \<^verbatim>\<open>breaking change:\<close> inside a line of its body make the commit breaking.
\<close>

theorem breaking_type_midline_footer:
  "parser_parse DEFAULT_CONFIG midline_footer_message [] =
     Some \<lparr>pc_sha = [], pc_type = ''breaking'', pc_scope = None, pc_subject = ''remove old api'',
           pc_body = ''this is not a breaking change: x'', pc_breaking = True,
           pc_bump = MAJOR\<rparr> \<and>
   CHR ''!'' \<notin> set midline_footer_message \<and>
   \<not> footer_at_line_start ''this is not a breaking change: x''"
  unfolding midline_footer_message_def by code_simp

section \<open>Body line warnings\<close>

lemma validate_type_line: "\<forall>r \<in> set (validate_type cfg t). line r = Some 1"
  by (simp add: validate_type_def Let_def)

lemma validate_scope_line: "\<forall>r \<in> set (validate_scope cfg sc). line r = Some 1"
  by (simp add: validate_scope_def Let_def)

lemma validate_subject_line: "\<forall>r \<in> set (validate_subject cfg su). line r = Some 1"
  by (auto simp: validate_subject_def Let_def)

lemma validate_header_length_line: "\<forall>r \<in> set (validate_header_length cfg h). line r = Some 1"
  by (simp add: validate_header_length_def Let_def)

lemma validate_header_line: "\<forall>r \<in> set (validate_header cfg h). line r = Some 1"
  using validate_type_line validate_scope_line validate_subject_line validate_header_length_line
  by (auto simp: validate_header_def validate_breaking_indicator_def split: option.splits)

lemma enumerate_warnings:
  "concat (map (\<lambda>(i, ln). if int (length ln) > m then [body_line_warning m i ln] else [])
               (enumerate_from k xs)) =
   [body_line_warning m (int j + k) (xs ! j). j \<leftarrow> [0..<length xs], int (length (xs ! j)) > m]"
proof (induction xs arbitrary: k)
  case Nil
  then show ?case by simp
next
  case (Cons x xs)
  have u: "[0..<length (x # xs)] = 0 # map Suc [0..<length xs]"
    by (simp add: upt_conv_Cons map_Suc_upt del: upt_Suc)
  show ?case
    unfolding u by (simp add: Cons.IH comp_def ac_simps del: upt_Suc cong: if_cong)
qed

lemma body_line_warning_fields:
  "level (body_line_warning m i ln) = WARNING" "line (body_line_warning m i ln) = Some i"
  by (simp_all add: body_line_warning_def)

lemma filter_numbered:
  "0 < offset \<Longrightarrow>
   [r \<leftarrow> numbered_warnings m (offset + 1) ls. level r = WARNING \<and> line r \<noteq> Some 1] =
     numbered_warnings m (offset + 1) ls"
  by (rule filter_True) (auto simp: numbered_warnings_def body_line_warning_fields)

lemma validate_body_warnings:
  "[r \<leftarrow> validate_body cfg body n. level r = WARNING \<and> line r \<noteq> Some 1] =
     numbered_warnings (max_body_line cfg) 3 (py_split NL body)"
proof -
  have e: "concat (map (\<lambda>(i, ln). if int (length ln) > max_body_line cfg
                                    then [body_line_warning (max_body_line cfg) i ln] else [])
                        (enumerate_from 3 (py_split NL body))) =
           numbered_warnings (max_body_line cfg) 3 (py_split NL body)"
    unfolding numbered_warnings_def by (rule enumerate_warnings)
  have f: "[r \<leftarrow> numbered_warnings (max_body_line cfg) 3 (py_split NL body).
              level r = WARNING \<and> line r \<noteq> Some 1] =
           numbered_warnings (max_body_line cfg) 3 (py_split NL body)"
    using filter_numbered [of 2 "max_body_line cfg" "py_split NL body"] by simp
  show ?thesis
    unfolding validate_body_def Let_def max_body_line_def [symmetric] e
    by (simp add: f)
qed

lemma py_join_Nil_strip: "py_strip [] = []"
  by (simp add: py_strip_def lstrip_def rstrip_def)

lemma validate_with_body:
  assumes "message_body msg \<noteq> []"
  shows "validate cfg msg =
           validate_header cfg (message_header msg) @
           validate_body cfg (message_body msg) (int (length (py_split NL (py_strip msg))))"
proof -
  have "tl (py_split NL (py_strip msg)) \<noteq> []"
    using assms by (auto simp: message_body_def py_join_Nil_strip)
  then have "length (py_split NL (py_strip msg)) > 1"
    by (cases "py_split NL (py_strip msg)") auto
  then show ?thesis
    using assms
    by (simp add: validate_def Let_def message_body_def message_header_def py_split_nonempty)
qed

lemma py_split_no_sep: "sep \<notin> set s \<Longrightarrow> py_split sep s = [s]"
  by (induction s) auto

lemma py_split_append:
  "sep \<notin> set a \<Longrightarrow> py_split sep (a @ sep # b) = a # py_split sep b"
  by (induction a) auto

lemma strip_id:
  assumes "s \<noteq> []" "\<not> is_space (hd s)" "\<not> is_space (last s)"
  shows "py_strip s = s"
proof -
  have "dropWhile is_space s = s" using assms(1,2) by (cases s) auto
  then show ?thesis
    using assms by (simp add: py_strip_def lstrip_def rstrip_def rev_dropWhile_last)
qed

lemma strip_leading_NL:
  assumes "s \<noteq> []" "\<not> is_space (hd s)" "\<not> is_space (last s)"
  shows "py_strip (NL # s) = s"
proof -
  have "dropWhile is_space (NL # s) = s" using assms(1,2) is_space_NL by (cases s) auto
  then show ?thesis
    using assms by (simp add: py_strip_def lstrip_def rstrip_def rev_dropWhile_last)
qed

lemma py_join_Cons_hd: "py_join sep ((c # w) # ws) = c # py_join sep (w # ws)"
  by (cases ws) simp_all

lemma py_join_split: "py_join [sep] (py_split sep s) = s"
proof (induction s)
  case Nil
  then show ?case by simp
next
  case (Cons c cs)
  obtain w ws where sp: "py_split sep cs = w # ws"
    using py_split_nonempty [of sep cs] by (cases "py_split sep cs") auto
  with Cons show ?case by (auto simp: py_join_Cons_hd)
qed

lemma canonical_layout_lines:
  assumes "canonical_layout msg header body"
  shows "message_body msg = body" and "py_split NL msg = header # [] # py_split NL body"
proof -
  from assms have m: "msg = header @ NL # NL # body" and h: "NL \<notin> set header" "header \<noteq> []"
    "\<not> is_space (hd header)" and b: "body \<noteq> []" "\<not> is_space (hd body)" "\<not> is_space (last body)"
    by (simp_all add: canonical_layout_def)
  have "py_strip msg = msg"
    using m h b by (intro strip_id) simp_all
  moreover show sp: "py_split NL msg = header # [] # py_split NL body"
    unfolding m using py_split_append [OF h(1), of "NL # body"] by simp
  moreover have "py_join [NL] ([] # py_split NL body) = NL # py_join [NL] (py_split NL body)"
    using py_split_nonempty [of NL body] by (cases "py_split NL body") simp_all
  moreover have "py_join [NL] (py_split NL body) = body"
    by (rule py_join_split)
  ultimately show "message_body msg = body"
    using strip_leading_NL [OF b] by (simp add: message_body_def)
qed

text \<open>
  C8, amended. For every commit message with a non-empty body (the text after the first
  line of the stripped message, itself stripped), \<open>validate\<close> emits exactly one WARNING
  per line of that body longer than the configured maximum (default 100), in order, and
  the number attached is 2 plus the 1-based position of the line within the body, so the
  first body line is numbered 3. When the message is the header, one blank line and the
  body, that number is the 1-based index of the line in the full message: the lines of
  the message are then the header, the empty line and the lines of the body.
\<close>

theorem body_warning_line_numbers:
  assumes "message_body msg \<noteq> []"
  shows "[r \<leftarrow> validate cfg msg. level r = WARNING \<and> line r \<noteq> Some 1] =
           numbered_warnings (max_body_line cfg) 3 (py_split NL (message_body msg)) \<and>
         (canonical_layout msg header body \<longrightarrow>
            py_split NL msg = header # [] # py_split NL (message_body msg))"
proof -
  have "[r \<leftarrow> validate_header cfg (message_header msg). level r = WARNING \<and> line r \<noteq> Some 1] = []"
    using validate_header_line [of cfg "message_header msg"] by (auto simp: filter_empty_conv)
  then have "[r \<leftarrow> validate cfg msg. level r = WARNING \<and> line r \<noteq> Some 1] =
           numbered_warnings (max_body_line cfg) 3 (py_split NL (message_body msg))"
    by (simp add: validate_with_body [OF assms] validate_body_warnings)
  moreover have "canonical_layout msg header body \<longrightarrow>
            py_split NL msg = header # [] # py_split NL (message_body msg)"
    using canonical_layout_lines [of msg header body] by simp
  ultimately show ?thesis by simp
qed

theorem body_warning_line_numbers_witness:
  "[r \<leftarrow> validate DEFAULT_CONFIG canonical_message. level r = WARNING \<and> line r \<noteq> Some 1] =
     [body_line_warning 100 4 (replicate 101 (CHR ''a''))] \<and>
   py_split NL canonical_message = [''feat: add x'', [], ''short'', replicate 101 (CHR ''a'')]"
proof -
  have b: "message_body canonical_message \<noteq> []"
    unfolding canonical_message_def by code_simp
  have c: "canonical_layout canonical_message ''feat: add x''
             (''short'' @ [NL] @ replicate 101 (CHR ''a''))"
    unfolding canonical_message_def by code_simp
  have l: "py_split NL (message_body canonical_message) = [''short'', replicate 101 (CHR ''a'')]"
    unfolding canonical_message_def by code_simp
  have n: "numbered_warnings (max_body_line DEFAULT_CONFIG) 3 [''short'', replicate 101 (CHR ''a'')] =
           [body_line_warning 100 4 (replicate 101 (CHR ''a''))]"
    by code_simp
  from body_warning_line_numbers [OF b, of DEFAULT_CONFIG "''feat: add x''"
      "''short'' @ [NL] @ replicate 101 (CHR ''a'')"] c
  show ?thesis unfolding l n by simp
qed

text \<open>
  C8 as stated fails when no blank line separates header and body: the over-long line is
  the second and last line of the message, and its WARNING carries the number 3.
\<close>

theorem body_warning_without_separator:
  "validate DEFAULT_CONFIG no_separator_message =
     [\<lparr>level = WARNING, message = ''Body line 1 too long (101 chars). Maximum: 100 chars'',
       line = Some 3\<rparr>] \<and>
   length (py_split NL no_separator_message) = 2 \<and>
   py_split NL no_separator_message ! 1 = replicate 101 (CHR ''a'')"
  unfolding no_separator_message_def by code_simp

section \<open>Prerelease version calculation\<close>

lemma bump_key: "version_key v = (a, b, c) \<Longrightarrow> bump v mb = bump (Version3 a b c) mb"
  by (cases mb) (simp_all add: version_key_def Version3_def)

lemma set_stable_versions_of:
  "set (stable_versions_of tags) =
     {v. \<exists>t \<in> set tags. Version_parse t = Inr v \<and> prerelease v = None}"
  by (auto simp: stable_versions_of_def split: sum.splits if_splits)

lemma stable_keys_image: "stable_keys tags = version_key ` set (stable_versions_of tags)"
  unfolding set_stable_versions_of stable_keys_def by auto

lemma sorted_le_last: "sorted zs \<Longrightarrow> y \<in> set zs \<Longrightarrow> y \<le> last zs"
  by (induction zs) auto

lemma hd_sort_reverse:
  assumes "xs \<noteq> []"
  shows "k (hd (sort_reverse k xs)) = Max (k ` set xs)"
proof -
  define ys where "ys = sort_key k (rev xs)"
  have se: "set ys = set xs" by (simp add: ys_def)
  have ne: "ys \<noteq> []" using assms se by (metis set_empty)
  have st: "sorted (map k ys)" by (simp add: ys_def)
  have "hd (rev ys) = last ys" using ne by (simp add: hd_rev)
  moreover have "k (last ys) = Max (k ` set ys)"
  proof (rule Max_eqI [symmetric])
    show "finite (k ` set ys)" by simp
    show "k (last ys) \<in> k ` set ys" using ne by simp
    fix y assume "y \<in> k ` set ys"
    then have "y \<in> set (map k ys)" by simp
    then have "y \<le> last (map k ys)" using st by (rule sorted_le_last [rotated])
    then show "y \<le> k (last ys)" using ne by (simp add: last_map)
  qed
  ultimately show ?thesis by (simp add: sort_reverse_def ys_def [symmetric] se)
qed

lemma next_base_max_stable:
  "bump (case get_latest_stable_version git of None \<Rightarrow> Version3 0 0 0 | Some v \<Rightarrow> v) mb =
   bump (max_stable_version (get_tags_matching git ''*'')) mb"
proof (cases "stable_versions_of (get_tags_matching git ''*'') = []")
  case True
  then have "stable_keys (get_tags_matching git ''*'') = {}" by (simp add: stable_keys_image)
  with True show ?thesis
    by (simp add: get_latest_stable_version_def max_stable_version_def)
next
  case False
  let ?vs = "stable_versions_of (get_tags_matching git ''*'')"
  obtain a b c where m: "Max (stable_keys (get_tags_matching git ''*'')) = (a, b, c)"
    by (cases "Max (stable_keys (get_tags_matching git ''*''))")
  have "version_key (hd (sort_reverse version_key ?vs)) = (a, b, c)"
    using hd_sort_reverse [OF False, of version_key] m by (simp add: stable_keys_image)
  then have "bump (hd (sort_reverse version_key ?vs)) mb = bump (Version3 a b c) mb"
    by (rule bump_key)
  moreover have "stable_keys (get_tags_matching git ''*'') \<noteq> {}"
    using False by (simp add: stable_keys_image)
  ultimately show ?thesis
    using False m by (simp add: get_latest_stable_version_def max_stable_version_def)
qed

lemma py_split_pieces: "p \<in> set (py_split sep s) \<Longrightarrow> sep \<notin> set p"
proof (induction s arbitrary: p)
  case Nil
  then show ?case by simp
next
  case (Cons c cs)
  obtain w ws where sp: "py_split sep cs = w # ws"
    using py_split_nonempty [of sep cs] by (cases "py_split sep cs") auto
  with Cons show ?case by (auto split: if_splits)
qed

lemma py_split_second:
  "(length (py_split sep s) \<ge> 2 \<and> py_split sep s ! 0 = a \<and> py_split sep s ! 1 = seg) \<longleftrightarrow>
   (sep \<notin> set a \<and> sep \<notin> set seg \<and>
    (\<exists>more. s = a @ sep # seg @ more \<and> (more = [] \<or> hd more = sep)))"
proof
  assume l: "length (py_split sep s) \<ge> 2 \<and> py_split sep s ! 0 = a \<and> py_split sep s ! 1 = seg"
  let ?P = "\<lambda>c. c \<noteq> sep"
  have a: "a = takeWhile ?P s"
    using l hd_py_split [of sep s] py_split_nonempty [of sep s] by (simp add: hd_conv_nth)
  have "sep \<in> set s"
  proof (rule ccontr)
    assume "sep \<notin> set s"
    then have "py_split sep s = [s]" by (rule py_split_no_sep)
    with l show False by simp
  qed
  then have "dropWhile ?P s \<noteq> []" by (auto simp: dropWhile_eq_Nil_conv)
  moreover have "\<not> ?P (hd (dropWhile ?P s))" using calculation by (rule hd_dropWhile)
  ultimately obtain rest where rest: "dropWhile ?P s = sep # rest"
    by (cases "dropWhile ?P s") auto
  have s: "s = a @ sep # rest" using a rest by (metis takeWhile_dropWhile_id)
  have na: "sep \<notin> set a" unfolding a by (auto dest: set_takeWhileD)
  have sp: "py_split sep s = a # py_split sep rest"
    using py_split_append [OF na, of rest] s by simp
  with l have "seg = hd (py_split sep rest)"
    using py_split_nonempty [of sep rest] by (simp add: hd_conv_nth)
  then have seg: "seg = takeWhile ?P rest" by (simp add: hd_py_split)
  define more where "more = dropWhile ?P rest"
  have "rest = seg @ more" by (simp add: seg more_def)
  moreover have "more = [] \<or> hd more = sep"
    using hd_dropWhile [of ?P rest] by (auto simp: more_def)
  moreover have "sep \<notin> set seg" unfolding seg by (auto dest: set_takeWhileD)
  ultimately show "sep \<notin> set a \<and> sep \<notin> set seg \<and>
    (\<exists>more. s = a @ sep # seg @ more \<and> (more = [] \<or> hd more = sep))"
    using na s by blast
next
  assume "sep \<notin> set a \<and> sep \<notin> set seg \<and>
    (\<exists>more. s = a @ sep # seg @ more \<and> (more = [] \<or> hd more = sep))"
  then obtain more where d: "sep \<notin> set a" "sep \<notin> set seg" "s = a @ sep # seg @ more"
    "more = [] \<or> hd more = sep" by blast
  have sp: "py_split sep s = a # py_split sep (seg @ more)"
    unfolding d(3) by (rule py_split_append [OF d(1)])
  have "\<forall>c \<in> set seg. c \<noteq> sep" using d(2) by auto
  from span_class(1) [where P = "\<lambda>c. c \<noteq> sep", OF this, of more] d(4)
  have "hd (py_split sep (seg @ more)) = seg" by (simp add: hd_py_split)
  then have "py_split sep (seg @ more) ! 0 = seg"
    using py_split_nonempty [of sep "seg @ more"] by (simp add: hd_conv_nth)
  moreover have "length (py_split sep (seg @ more)) \<ge> 1"
    using py_split_nonempty [of sep "seg @ more"] by (cases "py_split sep (seg @ more)") auto
  ultimately show "length (py_split sep s) \<ge> 2 \<and> py_split sep s ! 0 = a \<and> py_split sep s ! 1 = seg"
    unfolding sp by simp
qed

lemma tag_counter_iff:
  assumes "CHR ''.'' \<notin> set ident"
  shows "tag_counter ident t = Some n \<longleftrightarrow>
     (\<exists>v seg more. Version_parse t = Inr v \<and> prerelease v = Some (ident @ ''.'' @ seg @ more) \<and>
        CHR ''.'' \<notin> set seg \<and> (more = [] \<or> hd more = CHR ''.'') \<and> py_int seg = Some n)"
proof
  assume c: "tag_counter ident t = Some n"
  then obtain v where v: "Version_parse t = Inr v"
    by (auto simp: tag_counter_def split: sum.splits)
  with c obtain p where p: "prerelease v = Some p"
    by (cases "prerelease v") (auto simp: tag_counter_def)
  from c v p have l: "length (py_split (CHR ''.'') p) \<ge> 2 \<and> py_split (CHR ''.'') p ! 0 = ident \<and>
      py_split (CHR ''.'') p ! 1 = py_split (CHR ''.'') p ! 1"
    and i: "py_int (py_split (CHR ''.'') p ! 1) = Some n"
    by (auto simp: tag_counter_def Let_def split: if_splits)
  from l [unfolded py_split_second] i v p
  show "\<exists>v seg more. Version_parse t = Inr v \<and> prerelease v = Some (ident @ ''.'' @ seg @ more) \<and>
        CHR ''.'' \<notin> set seg \<and> (more = [] \<or> hd more = CHR ''.'') \<and> py_int seg = Some n"
    by auto
next
  assume "\<exists>v seg more. Version_parse t = Inr v \<and> prerelease v = Some (ident @ ''.'' @ seg @ more) \<and>
        CHR ''.'' \<notin> set seg \<and> (more = [] \<or> hd more = CHR ''.'') \<and> py_int seg = Some n"
  then obtain v seg more where d: "Version_parse t = Inr v"
    "prerelease v = Some (ident @ ''.'' @ seg @ more)" "CHR ''.'' \<notin> set seg"
    "more = [] \<or> hd more = CHR ''.''" "py_int seg = Some n" by blast
  have "length (py_split (CHR ''.'') (ident @ ''.'' @ seg @ more)) \<ge> 2 \<and>
        py_split (CHR ''.'') (ident @ ''.'' @ seg @ more) ! 0 = ident \<and>
        py_split (CHR ''.'') (ident @ ''.'' @ seg @ more) ! 1 = seg"
    unfolding py_split_second using assms d(3,4) by auto
  with d(1,2,5) show "tag_counter ident t = Some n"
    by (simp add: tag_counter_def Let_def)
qed

lemma tag_counter_dotted:
  assumes "CHR ''.'' \<in> set ident"
  shows "tag_counter ident t = None"
proof -
  have "py_split (CHR ''.'') p ! 0 \<noteq> ident" for p
  proof -
    have "py_split (CHR ''.'') p ! 0 \<in> set (py_split (CHR ''.'') p)"
      using py_split_nonempty [of "CHR ''.''" p] by (cases "py_split (CHR ''.'') p") auto
    then have "CHR ''.'' \<notin> set (py_split (CHR ''.'') p ! 0)" by (rule py_split_pieces)
    with assms show ?thesis by auto
  qed
  then show ?thesis
    by (auto simp: tag_counter_def Let_def split: sum.splits)
qed

lemma get_prerelease_counter_eq:
  "get_prerelease_counter git base ident branch =
     (if CHR ''.'' \<in> set ident then 1
      else next_counter (counted ident
             (get_tags_matching git (to_string base @ ''-'' @ ident @ ''.*''))))"
proof -
  define ts where "ts = get_tags_matching git (to_string base @ ''-'' @ ident @ ''.*'')"
  define cs where "cs = concat (map (\<lambda>tag. case tag_counter ident tag of
                                             None \<Rightarrow> [] | Some n \<Rightarrow> [n]) ts)"
  have cset: "set cs = {n. \<exists>t \<in> set ts. tag_counter ident t = Some n}"
    by (auto simp: cs_def split: option.splits)
  have g: "get_prerelease_counter git base ident branch =
             (if ts = [] then 1 else if cs \<noteq> [] then Max (set cs) + 1 else 1)"
    by (simp add: get_prerelease_counter_def Let_def ts_def cs_def)
  show ?thesis
  proof (cases "CHR ''.'' \<in> set ident")
    case True
    then have "set cs = {}" unfolding cset by (simp add: tag_counter_dotted)
    then have "cs = []" by simp
    with True g show ?thesis by simp
  next
    case False
    have "set cs = counted ident ts"
      unfolding cset counted_def by (simp add: tag_counter_iff [OF False])
    moreover have "ts = [] \<Longrightarrow> cs = []" by (simp add: cs_def)
    ultimately have "get_prerelease_counter git base ident branch = next_counter (counted ident ts)"
      unfolding g next_counter_def by (cases "cs = []") auto
    with False show ?thesis by (simp add: ts_def)
  qed
qed

text \<open>
  C1, amended. For every prerelease-branch calculation with a non-empty identifier that
  contains no dot and a bump other than NONE, \<open>calculate_next_version\<close> returns
  \<open>with_prerelease next_base ident counter\<close>, where \<open>next_base\<close> is the bump applied to
  the maximum stable version parsed from the tags git lists for \<^verbatim>\<open>*\<close> ((0, 0, 0) when
  there is none), and \<open>counter\<close> is one plus the maximum integer among the tags git lists
  for the pattern \<^verbatim>\<open>{next_base}-{ident}.*\<close> that parse as a version whose prerelease is
  the identifier, a dot and a segment \<^verbatim>\<open>int\<close> reads, further segments and build ignored,
  or 1 when there is no such tag. In particular, with identifier \<^verbatim>\<open>dev\<close>, the tags
  \<^verbatim>\<open>1.2.0\<close>, \<^verbatim>\<open>1.2.1-dev.1\<close>, \<^verbatim>\<open>1.2.1-dev.2\<close> and the bump PATCH the result is
  \<^verbatim>\<open>1.2.1-dev.3\<close>.
\<close>

theorem prerelease_version:
  assumes "get_branch_config fnm cfg branch_name = Some bc"
    and "bc_prerelease bc = Some ident" and "ident \<noteq> []" and "CHR ''.'' \<notin> set ident"
    and "max_bump \<noteq> NONE"
  shows "(let next_base = bump (max_stable_version (get_tags_matching git ''*'')) max_bump;
              counter = next_counter (counted ident
                          (get_tags_matching git (to_string next_base @ ''-'' @ ident @ ''.*'')))
          in calculate_next_version fnm cfg git commits current_version branch_name max_bump =
               Some (with_prerelease next_base ident counter)) \<and>
         calculate_next_version (\<lambda>name pat. glob pat name) DEFAULT_CONFIG scenario_git [] None
             ''dev'' PATCH =
           Some \<lparr>major = 1, minor = 2, patch = 1, prerelease = Some ''dev.3'', build = None\<rparr>"
proof -
  have "calculate_next_version fnm cfg git commits current_version branch_name max_bump =
          Some (calculate_prerelease_version git commits max_bump ident)"
    using assms(1,2,3,5) by (simp add: calculate_next_version_def)
  moreover have "calculate_prerelease_version git commits max_bump ident =
      (let next_base = bump (max_stable_version (get_tags_matching git ''*'')) max_bump;
           counter = next_counter (counted ident
                          (get_tags_matching git (to_string next_base @ ''-'' @ ident @ ''.*'')))
       in with_prerelease next_base ident counter)"
    using assms(4)
    by (simp add: calculate_prerelease_version_def Let_def next_base_max_stable
        get_prerelease_counter_eq)
  moreover have "calculate_next_version (\<lambda>name pat. glob pat name) DEFAULT_CONFIG scenario_git []
      None ''dev'' PATCH =
      Some \<lparr>major = 1, minor = 2, patch = 1, prerelease = Some ''dev.3'', build = None\<rparr>"
    unfolding scenario_git_def by code_simp
  ultimately show ?thesis by (simp add: Let_def)
qed

theorem prerelease_version_witness:
  "Some (with_prerelease
           (bump (max_stable_version (get_tags_matching scenario_git ''*'')) PATCH) ''dev''
           (next_counter (counted ''dev''
              (get_tags_matching scenario_git
                 (to_string (bump (max_stable_version (get_tags_matching scenario_git ''*'')) PATCH)
                    @ ''-'' @ ''dev'' @ ''.*''))))) =
   Some \<lparr>major = 1, minor = 2, patch = 1, prerelease = Some ''dev.3'', build = None\<rparr>"
proof -
  have b: "get_branch_config (\<lambda>name pat. glob pat name) DEFAULT_CONFIG ''dev'' =
             Some \<lparr>bc_name = ''dev'', bc_type = ''prerelease'', bc_prerelease = Some ''dev''\<rparr>"
    by code_simp
  have p: "bc_prerelease \<lparr>bc_name = ''dev'', bc_type = ''prerelease'', bc_prerelease = Some ''dev''\<rparr>
             = Some ''dev''" by simp
  have n: "''dev'' \<noteq> []" "CHR ''.'' \<notin> set ''dev''" "PATCH \<noteq> NONE" by simp_all
  note t = prerelease_version [OF b p n, of scenario_git "[]" None, unfolded Let_def]
  show ?thesis by (rule trans [OF conjunct1 [OF t, symmetric] conjunct2 [OF t]])
qed

text \<open>
  C1 as stated fails for an identifier with a dot: with identifier \<^verbatim>\<open>rc.x\<close> the tag
  \<^verbatim>\<open>1.2.1-rc.x.1\<close> is listed for the pattern and has the form next base, hyphen,
  identifier, dot, 1, yet the counter of the result is 1 again, not 2.
\<close>

theorem dotted_identifier_counter:
  "calculate_next_version (\<lambda>name pat. glob pat name) dotted_config dotted_git [] None ''next'' PATCH =
     Some (with_prerelease (Version3 1 2 1) ''rc.x'' 1) \<and>
   to_string (Version3 1 2 1) @ ''-'' @ ''rc.x'' @ ''.'' @ str_int 1
     \<in> set (get_tags_matching dotted_git (to_string (Version3 1 2 1) @ ''-'' @ ''rc.x'' @ ''.*''))"
  unfolding dotted_config_def dotted_git_def by code_simp

end
